theory Spec2Isabelle
  imports Main "HOL-Library.Sublist" "HOL-Library.AList" "HOL-Library.Multiset"
begin

section \<open>The environment of \<^verbatim>\<open>fetch_python.py\<close>\<close>

text \<open>
  The script talks to three things outside itself: the network (the release endpoint and
  the file servers), the local file system, and the console. They are collected in one
  record that every operation takes and returns.

  Paths and URLs are compared as the strings the script builds; nothing is normalised
  (no \<^verbatim>\<open>..\<close>, no symbolic links), and paths are joined the POSIX way. The file system is
  flat: a map from paths to the content of regular files, and a set of directories.
\<close>

type_synonym path = string
type_synonym content = string

datatype py_error =
    KeyError
  | ValueError
  | URLError
  | ContentTooShortError
  | FileExistsError
  | FileNotFoundError
  | IsADirectoryError
  | PermissionError

text \<open>What the server behind a URL does when \<^verbatim>\<open>urlretrieve\<close> asks for it.\<close>

datatype response =
    Unreachable               \<comment> \<open>the request fails before a byte arrives\<close>
  | Truncated content         \<comment> \<open>the connection breaks after these bytes were written\<close>
  | Complete content          \<comment> \<open>the whole body arrives\<close>

text \<open>One asset and one release of the metadata payload, after \<^verbatim>\<open>json.loads\<close>. A key
  that the payload lacks is \<open>None\<close>; the script reads every key with \<^verbatim>\<open>.get\<close> and a
  default. Payloads whose fields carry other JSON types are outside the model.\<close>

record asset =
  name :: "string option"
  browser_download_url :: "string option"

record release =
  tag_name :: "string option"
  assets :: "asset list option"

datatype api_reply =
    Net_failure               \<comment> \<open>\<^verbatim>\<open>urlopen\<close> raises: no route, HTTP error status, timeout\<close>
  | Malformed                 \<comment> \<open>the body is not JSON: \<^verbatim>\<open>json.loads\<close> raises\<close>
  | Parsed release

text \<open>The release catalog: a dictionary from platform to a dictionary from version tag to
  the list of artifact descriptors. Dictionaries are association lists in insertion order,
  read with \<open>map_of\<close> and written with \<open>AList.update\<close>.\<close>

record descriptor =
  filename :: string
  platform :: string
  url :: string
  sha256 :: "string option"

type_synonym version_map = "(string \<times> descriptor list) list"
type_synonym catalog = "(string \<times> version_map) list"

text \<open>A download task is the triple \<^verbatim>\<open>(url, save_path, filename)\<close>.\<close>

type_synonym task = "string \<times> path \<times> string"

text \<open>The lines the script prints. The wording of the messages is left out; what is kept
  is which message it is and the values formatted into it.\<close>

datatype line =
    Starting string                 \<comment> \<open>a transfer begins\<close>
  | Finished string                 \<comment> \<open>a transfer is complete\<close>
  | Failed string py_error          \<comment> \<open>a transfer failed (to stderr)\<close>
  | Skipped string                  \<comment> \<open>the destination exists already\<close>
  | Nothing_to_download
  | Preparing nat int               \<comment> \<open>number of files, number of threads\<close>
  | Tally nat nat                   \<comment> \<open>success count, failure count\<close>
  | Fetching "string list"
  | Fetch_error py_error            \<comment> \<open>the diagnostic of the catalog builder (to stderr)\<close>
  | Fetch_failed                    \<comment> \<open>the diagnostic of \<^verbatim>\<open>main\<close>\<close>
  | Rule
  | Blank
  | Dump catalog                    \<comment> \<open>the catalog of the selected platforms, as JSON\<close>
  | Stats_header
  | Stats string nat

record world =
  fs_files :: "path \<rightharpoonup> content"
  fs_dirs :: "path set"
  undeletable :: "path set"         \<comment> \<open>files the system refuses to unlink\<close>
  remote :: "string \<Rightarrow> response"
  api :: api_reply
  retrieved :: "string list"        \<comment> \<open>the URLs handed to \<^verbatim>\<open>urlretrieve\<close>, in order\<close>
  console :: "line list"

text \<open>\<^verbatim>\<open>thread_safe_print\<close> takes the lock and prints. Run by one thread it is a plain
  \<^verbatim>\<open>print\<close>, and the calls of \<^verbatim>\<open>print\<close> in the script are modelled by it as well. Standard
  output and standard error are one console.\<close>

definition thread_safe_print :: "line \<Rightarrow> world \<Rightarrow> world" where
  "thread_safe_print l w = w\<lparr>console := console w @ [l]\<rparr>"

subsection \<open>The calls into \<^verbatim>\<open>os\<close> and \<^verbatim>\<open>urllib\<close>\<close>

definition sep :: char where
  "sep = CHR ''/''"

text \<open>\<^verbatim>\<open>os.path.join\<close> of two components, and of three as the script calls it.\<close>

definition path_join :: "path \<Rightarrow> path \<Rightarrow> path" where
  "path_join a b =
     (if b \<noteq> [] \<and> hd b = sep then b
      else if a = [] \<or> last a = sep then a @ b
      else a @ [sep] @ b)"

definition path_join3 :: "path \<Rightarrow> path \<Rightarrow> path \<Rightarrow> path" where
  "path_join3 a b c = path_join (path_join a b) c"

definition path_exists :: "world \<Rightarrow> path \<Rightarrow> bool" where
  "path_exists w p \<longleftrightarrow> fs_files w p \<noteq> None \<or> p \<in> fs_dirs w"

text \<open>The directory a path lies in: everything before its last separator. It is empty for
  a path without a separator, which lies in the working directory, and for a path
  directly under the root; both directories always exist.\<close>

definition parent_dir :: "path \<Rightarrow> path" where
  "parent_dir p = rev (drop 1 (dropWhile (\<lambda>c. c \<noteq> sep) (rev p)))"

text \<open>The directories \<^verbatim>\<open>os.makedirs\<close> walks through, outermost first: the prefixes of the
  path that end before a separator, and the path itself.\<close>

definition ancestors :: "path \<Rightarrow> path list" where
  "ancestors p =
     filter (\<lambda>q. q \<noteq> [] \<and> last q \<noteq> sep \<and> (q = p \<or> p ! length q = sep)) (prefixes p)"

fun mkdir_chain :: "path list \<Rightarrow> world \<Rightarrow> py_error + world" where
  "mkdir_chain [] w = Inr w"
| "mkdir_chain (q # qs) w =
     (if q \<in> fs_dirs w then mkdir_chain qs w
      else if fs_files w q \<noteq> None then Inl FileExistsError
      else mkdir_chain qs (w\<lparr>fs_dirs := insert q (fs_dirs w)\<rparr>))"

text \<open>\<^verbatim>\<open>os.makedirs(p, exist_ok=True)\<close>: directories that exist are kept, missing ones are
  made, and a regular file in the way raises.\<close>

definition makedirs :: "path \<Rightarrow> world \<Rightarrow> py_error + world" where
  "makedirs p w = mkdir_chain (ancestors p) w"

text \<open>\<^verbatim>\<open>os.remove\<close>.\<close>

definition os_remove :: "path \<Rightarrow> world \<Rightarrow> py_error + world" where
  "os_remove p w =
     (if p \<in> fs_dirs w then Inl IsADirectoryError
      else if fs_files w p = None then Inl FileNotFoundError
      else if p \<in> undeletable w then Inl PermissionError
      else Inr (w\<lparr>fs_files := (fs_files w)(p := None)\<rparr>))"

text \<open>\<^verbatim>\<open>urlretrieve(url, p)\<close>: the request is made, then the destination is opened for
  writing, which fails on a directory and in a directory that does not exist, then the
  body is copied. An error leaves behind what had been written.\<close>

definition urlretrieve :: "string \<Rightarrow> path \<Rightarrow> world \<Rightarrow> (py_error + unit) \<times> world" where
  "urlretrieve u p w =
     (let w1 = w\<lparr>retrieved := retrieved w @ [u]\<rparr> in
      case remote w u of
        Unreachable \<Rightarrow> (Inl URLError, w1)
      | Truncated c \<Rightarrow>
          (if p \<in> fs_dirs w then (Inl IsADirectoryError, w1)
           else if parent_dir p \<noteq> [] \<and> parent_dir p \<notin> fs_dirs w then (Inl FileNotFoundError, w1)
           else (Inl ContentTooShortError, w1\<lparr>fs_files := (fs_files w)(p \<mapsto> c)\<rparr>))
      | Complete c \<Rightarrow>
          (if p \<in> fs_dirs w then (Inl IsADirectoryError, w1)
           else if parent_dir p \<noteq> [] \<and> parent_dir p \<notin> fs_dirs w then (Inl FileNotFoundError, w1)
           else (Inr (), w1\<lparr>fs_files := (fs_files w)(p \<mapsto> c)\<rparr>)))"

section \<open>The download of one file\<close>

text \<open>\<^verbatim>\<open>download_single_file(url, save_path, filename)\<close>. The error of a failed transfer is
  caught; the destination is removed when it exists, and an error of the removal is
  swallowed.\<close>

definition download_single_file ::
  "string \<Rightarrow> path \<Rightarrow> string \<Rightarrow> world \<Rightarrow> (bool \<times> string) \<times> world" where
  "download_single_file u save_path fname w =
     (case urlretrieve u save_path (thread_safe_print (Starting fname) w) of
        (Inr _, w1) \<Rightarrow> ((True, fname), thread_safe_print (Finished fname) w1)
      | (Inl e, w1) \<Rightarrow>
          (let w2 = thread_safe_print (Failed fname e) w1 in
           if path_exists w2 save_path then
             (case os_remove save_path w2 of
                Inr w3 \<Rightarrow> ((False, fname), w3)
              | Inl _ \<Rightarrow> ((False, fname), w2))
           else ((False, fname), w2)))"

section \<open>The catalog builder\<close>

definition SYSTEMS :: "string list" where
  "SYSTEMS = [''Linux'', ''macOS'', ''Windows'']"

definition BASE_DIR :: path where
  "BASE_DIR = ''downloads''"

definition MAX_WORKERS :: int where
  "MAX_WORKERS = 8"                 \<comment> \<open>the default of \<^verbatim>\<open>--workers\<close>\<close>

text \<open>Python's \<^verbatim>\<open>sub in s\<close> on strings: \<open>sub\<close> occurs somewhere in \<open>s\<close>.\<close>

fun occurs_in :: "string \<Rightarrow> string \<Rightarrow> bool" where
  "occurs_in sub [] \<longleftrightarrow> sub = []"
| "occurs_in sub (c # cs) \<longleftrightarrow> prefix sub (c # cs) \<or> occurs_in sub cs"

text \<open>\<^verbatim>\<open>d.get(key, "")\<close> on a key that may be absent.\<close>

definition get_or_empty :: "string option \<Rightarrow> string" where
  "get_or_empty v = (case v of None \<Rightarrow> [] | Some s \<Rightarrow> s)"

text \<open>Lines 53 to 73: the platform and the architecture label of a file name. The platform
  markers are tried in order, and within a platform the architecture markers.\<close>

definition classify :: "string \<Rightarrow> string option \<times> string" where
  "classify nm =
     (if occurs_in ''unknown-linux-gnu'' nm then
        (Some ''Linux'',
         if occurs_in ''x86_64'' nm then ''x86_64''
         else if occurs_in ''aarch64'' nm then ''aarch64'' else [])
      else if occurs_in ''apple-darwin'' nm then
        (Some ''macOS'',
         if occurs_in ''x86_64'' nm then ''x86_64''
         else if occurs_in ''aarch64'' nm then ''aarch64 (Apple Silicon)'' else [])
      else if occurs_in ''pc-windows'' nm then
        (Some ''Windows'',
         if occurs_in ''x86_64'' nm then ''x86_64''
         else if occurs_in ''i686'' nm then ''i686'' else [])
      else (None, []))"

text \<open>Lines 76 to 85: \<^verbatim>\<open>result[system][version]\<close> is created when missing and the descriptor
  is appended to it. A subscript on a missing key raises \<^verbatim>\<open>KeyError\<close>.\<close>

definition add_descriptor ::
  "string \<Rightarrow> string \<Rightarrow> descriptor \<Rightarrow> catalog \<Rightarrow> py_error + catalog" where
  "add_descriptor sys version d result =
     (case map_of result sys of
        None \<Rightarrow> Inl KeyError
      | Some vm \<Rightarrow>
          (let vm1 = (if map_of vm version = None then AList.update version [] vm else vm) in
           case map_of vm1 version of
             None \<Rightarrow> Inl KeyError
           | Some ds \<Rightarrow> Inr (AList.update sys (AList.update version (ds @ [d]) vm1) result)))"

text \<open>Lines 46 to 85: the loop over the assets of the release.\<close>

fun scan_assets :: "string \<Rightarrow> asset list \<Rightarrow> catalog \<Rightarrow> py_error + catalog" where
  "scan_assets version [] result = Inr result"
| "scan_assets version (a # rest) result =
     (let nm = get_or_empty (name a) in
      if \<not> occurs_in ''install_only.tar.gz'' nm then scan_assets version rest result
      else
        (let download_url = get_or_empty (browser_download_url a) in
         case classify nm of
           (None, platform_info) \<Rightarrow> scan_assets version rest result
         | (Some sys, platform_info) \<Rightarrow>
             if platform_info = [] then scan_assets version rest result
             else
               (case add_descriptor sys version
                       \<lparr>filename = nm, platform = platform_info, url = download_url,
                        sha256 = None\<rparr> result of
                  Inl e \<Rightarrow> Inl e
                | Inr result1 \<Rightarrow> scan_assets version rest result1)))"

text \<open>\<^verbatim>\<open>release.get("assets", [])\<close>.\<close>

definition payload :: "release \<Rightarrow> asset list" where
  "payload rel = (case assets rel of None \<Rightarrow> [] | Some l \<Rightarrow> l)"

text \<open>\<^verbatim>\<open>fetch_python_versions()\<close>: one request to the release endpoint. Every exception
  raised inside the \<^verbatim>\<open>try\<close> is printed and turned into \<^verbatim>\<open>None\<close>.\<close>

definition fetch_python_versions :: "world \<Rightarrow> catalog option \<times> world" where
  "fetch_python_versions w =
     (case api w of
        Net_failure \<Rightarrow> (None, thread_safe_print (Fetch_error URLError) w)
      | Malformed \<Rightarrow> (None, thread_safe_print (Fetch_error ValueError) w)
      | Parsed rel \<Rightarrow>
          (let result = map (\<lambda>sys. (sys, [])) SYSTEMS;
               version = get_or_empty (tag_name rel) in
           if version = [] then (Some result, w)
           else
             (case scan_assets version (payload rel) result of
                Inl e \<Rightarrow> (None, thread_safe_print (Fetch_error e) w)
              | Inr result1 \<Rightarrow> (Some result1, w))))"

section \<open>The task planner\<close>

definition sha_name :: "string \<Rightarrow> string" where
  "sha_name version = ''SHA256SUMS-'' @ version @ ''.txt''"

definition sha_link :: "string \<Rightarrow> string" where
  "sha_link version =
     ''https://github.com/astral-sh/python-build-standalone/releases/download/'' @ version
       @ ''/SHA256SUMS''"

definition folder_of :: "string \<Rightarrow> path" where
  "folder_of sys = path_join3 BASE_DIR sys ''Python''"

text \<open>Lines 138 to 147: the artifacts of one version.\<close>

fun plan_files :: "path \<Rightarrow> descriptor list \<Rightarrow> task list \<Rightarrow> world \<Rightarrow> task list \<times> world" where
  "plan_files folder_path [] download_tasks w = (download_tasks, w)"
| "plan_files folder_path (item # rest) download_tasks w =
     (let save_path = path_join folder_path (filename item) in
      if path_exists w save_path then
        plan_files folder_path rest download_tasks (thread_safe_print (Skipped (filename item)) w)
      else
        plan_files folder_path rest (download_tasks @ [(url item, save_path, filename item)]) w)"

text \<open>Lines 123 to 147: the versions of one platform. An exception of \<^verbatim>\<open>os.makedirs\<close> is
  not caught and ends the run.\<close>

fun plan_versions ::
  "string \<Rightarrow> version_map \<Rightarrow> task list \<Rightarrow> task list \<Rightarrow> world
     \<Rightarrow> py_error + (task list \<times> task list \<times> world)" where
  "plan_versions sys [] sha_tasks download_tasks w = Inr (sha_tasks, download_tasks, w)"
| "plan_versions sys ((version, items) # rest) sha_tasks download_tasks w =
     (let folder_path = folder_of sys in
      case makedirs folder_path w of
        Inl e \<Rightarrow> Inl e
      | Inr w1 \<Rightarrow>
          (let sha_path = path_join folder_path (sha_name version);
               (sha_tasks1, w2) =
                  (if \<not> path_exists w1 sha_path then
                     (sha_tasks @ [(sha_link version, sha_path, sha_name version)], w1)
                   else (sha_tasks, thread_safe_print (Skipped (sha_name version)) w1));
               (download_tasks1, w3) = plan_files folder_path items download_tasks w2
           in plan_versions sys rest sha_tasks1 download_tasks1 w3))"

text \<open>Lines 119 to 147: the selected platforms.\<close>

fun plan_systems ::
  "catalog \<Rightarrow> string list \<Rightarrow> task list \<Rightarrow> task list \<Rightarrow> world
     \<Rightarrow> py_error + (task list \<times> task list \<times> world)" where
  "plan_systems versions_data [] sha_tasks download_tasks w = Inr (sha_tasks, download_tasks, w)"
| "plan_systems versions_data (sys # rest) sha_tasks download_tasks w =
     (case map_of versions_data sys of
        None \<Rightarrow> plan_systems versions_data rest sha_tasks download_tasks w
      | Some vm \<Rightarrow>
          (case plan_versions sys vm sha_tasks download_tasks w of
             Inl e \<Rightarrow> Inl e
           | Inr (sha_tasks1, download_tasks1, w1) \<Rightarrow>
               plan_systems versions_data rest sha_tasks1 download_tasks1 w1))"

section \<open>The download engine\<close>

text \<open>
  The pool runs \<^verbatim>\<open>download_single_file\<close> on every submitted task. The model runs the
  tasks one after the other in the order of submission, which is the schedule of a pool
  with one worker; how the transfers of several workers interleave is not modelled.
\<close>

fun run_tasks :: "task list \<Rightarrow> world \<Rightarrow> (bool \<times> string) list \<times> world" where
  "run_tasks [] w = ([], w)"
| "run_tasks ((u, save_path, fname) # rest) w =
     (let (r, w1) = download_single_file u save_path fname w;
          (rs, w2) = run_tasks rest w1
      in (r # rs, w2))"

text \<open>Lines 176 to 181: the loop over the finished futures.\<close>

fun count_outcomes :: "(bool \<times> string) list \<Rightarrow> nat \<Rightarrow> nat \<Rightarrow> nat \<times> nat" where
  "count_outcomes [] success_count failed_count = (success_count, failed_count)"
| "count_outcomes ((success, fname) # rest) success_count failed_count =
     (if success then count_outcomes rest (success_count + 1) failed_count
      else count_outcomes rest success_count (failed_count + 1))"

text \<open>Lines 159 to 183. \<^verbatim>\<open>ThreadPoolExecutor\<close> raises \<^verbatim>\<open>ValueError\<close> for a number of workers
  that is not positive; the manifest tasks are submitted first, then the artifact tasks.\<close>

definition run_pool :: "int \<Rightarrow> task list \<Rightarrow> task list \<Rightarrow> world \<Rightarrow> py_error + world" where
  "run_pool max_workers sha_tasks download_tasks w =
     (if max_workers \<le> 0 then Inl ValueError
      else
        (let futures = sha_tasks @ download_tasks;
             (results, w1) = run_tasks futures w;
             (success_count, failed_count) = count_outcomes results 0 0
         in Inr (thread_safe_print (Tally success_count failed_count) w1)))"

text \<open>\<^verbatim>\<open>download_files(versions_data, systems_to_download, max_workers)\<close>.\<close>

definition download_files :: "catalog \<Rightarrow> string list \<Rightarrow> int \<Rightarrow> world \<Rightarrow> py_error + world" where
  "download_files versions_data systems_to_download max_workers w =
     (case plan_systems versions_data systems_to_download [] [] w of
        Inl e \<Rightarrow> Inl e
      | Inr (sha_tasks, download_tasks, w1) \<Rightarrow>
          (let total_tasks = length sha_tasks + length download_tasks in
           if total_tasks = 0 then Inr (thread_safe_print Nothing_to_download w1)
           else run_pool max_workers sha_tasks download_tasks
                  (thread_safe_print (Preparing total_tasks max_workers) w1)))"

section \<open>The command\<close>

record args =
  arg_system :: string              \<comment> \<open>\<^verbatim>\<open>--system\<close>: a platform name or \<^verbatim>\<open>all\<close>\<close>
  arg_workers :: int                \<comment> \<open>\<^verbatim>\<open>--workers\<close>\<close>

text \<open>Lines 229 to 233.\<close>

fun print_stats :: "catalog \<Rightarrow> string list \<Rightarrow> world \<Rightarrow> world" where
  "print_stats versions_data [] w = w"
| "print_stats versions_data (sys # rest) w =
     (case map_of versions_data sys of
        None \<Rightarrow> print_stats versions_data rest w
      | Some vm \<Rightarrow>
          print_stats versions_data rest
            (thread_safe_print (Stats sys (sum_list (map (\<lambda>(v, items). length items) vm))) w))"

text \<open>Lines 214 to 223: the catalog of the selected platforms is printed between two
  rules.\<close>

definition print_catalog :: "catalog \<Rightarrow> string list \<Rightarrow> world \<Rightarrow> world" where
  "print_catalog versions_data systems_to_download w =
     (let filtered_data =
            concat (map (\<lambda>sys. case map_of versions_data sys of
                                  None \<Rightarrow> [] | Some vm \<Rightarrow> [(sys, vm)])
                        systems_to_download)
      in thread_safe_print Blank (thread_safe_print Rule
           (thread_safe_print (Dump filtered_data) (thread_safe_print Rule w))))"

text \<open>\<^verbatim>\<open>main()\<close>, after the arguments were parsed. The result is the exit status and the
  final environment, or the exception that ended the run. \<^verbatim>\<open>not versions_data\<close> holds for
  \<^verbatim>\<open>None\<close> and for an empty dictionary.\<close>

definition main :: "args \<Rightarrow> world \<Rightarrow> py_error + (nat \<times> world)" where
  "main a w =
     (let systems_to_download = (if arg_system a = ''all'' then SYSTEMS else [arg_system a]);
          (versions_data, w1) =
             fetch_python_versions (thread_safe_print (Fetching systems_to_download) w)
      in case versions_data of
           None \<Rightarrow> Inr (1, thread_safe_print Fetch_failed w1)
         | Some vd \<Rightarrow>
             if vd = [] then Inr (1, thread_safe_print Fetch_failed w1)
             else
               (case download_files vd systems_to_download (arg_workers a)
                       (print_catalog vd systems_to_download w1) of
                  Inl e \<Rightarrow> Inl e
                | Inr w3 \<Rightarrow>
                    Inr (0, print_stats vd systems_to_download
                              (thread_safe_print Stats_header w3))))"

section \<open>Predicates used in the statements\<close>

text \<open>Every descriptor of a catalog satisfies \<open>P\<close>, which may mention the platform and the
  version the descriptor is filed under.\<close>

definition all_descriptors :: "(string \<Rightarrow> string \<Rightarrow> descriptor \<Rightarrow> bool) \<Rightarrow> catalog \<Rightarrow> bool" where
  "all_descriptors P cat \<longleftrightarrow>
     (\<forall>sys vm v ds d. (sys, vm) \<in> set cat \<longrightarrow> (v, ds) \<in> set vm \<longrightarrow> d \<in> set ds \<longrightarrow> P sys v d)"

text \<open>The candidates of the planner: the manifest of a version and the artifact of a
  descriptor, as the tasks the planner builds for them; a candidate is pending when
  nothing exists at its destination.\<close>

definition manifest_of :: "string \<Rightarrow> string \<Rightarrow> task" where
  "manifest_of sys version =
     (sha_link version, path_join (folder_of sys) (sha_name version), sha_name version)"

definition artifact_of :: "string \<Rightarrow> descriptor \<Rightarrow> task" where
  "artifact_of sys item = (url item, path_join (folder_of sys) (filename item), filename item)"

definition destination :: "task \<Rightarrow> path" where
  "destination t = fst (snd t)"

definition display_name :: "task \<Rightarrow> string" where
  "display_name t = snd (snd t)"

definition pending :: "world \<Rightarrow> task \<Rightarrow> bool" where
  "pending w t \<longleftrightarrow> \<not> path_exists w (destination t)"

text \<open>The manifest candidates and the artifact candidates of the selected platforms, in
  the order the planner visits them.\<close>

definition manifest_candidates :: "catalog \<Rightarrow> string list \<Rightarrow> task list" where
  "manifest_candidates versions_data systems_to_download =
     concat (map (\<lambda>sys. case map_of versions_data sys of
                           None \<Rightarrow> []
                         | Some vm \<Rightarrow> map (\<lambda>(version, items). manifest_of sys version) vm)
                 systems_to_download)"

definition artifact_candidates :: "catalog \<Rightarrow> string list \<Rightarrow> task list" where
  "artifact_candidates versions_data systems_to_download =
     concat (map (\<lambda>sys. case map_of versions_data sys of
                           None \<Rightarrow> []
                         | Some vm \<Rightarrow>
                             concat (map (\<lambda>(version, items). map (artifact_of sys) items) vm))
                 systems_to_download)"

text \<open>The platforms the planner makes a directory for: selected, in the catalog, and with at
  least one version.\<close>

definition visited :: "catalog \<Rightarrow> string list \<Rightarrow> string list" where
  "visited versions_data systems_to_download =
     filter (\<lambda>sys. case map_of versions_data sys of None \<Rightarrow> False | Some vm \<Rightarrow> vm \<noteq> [])
            systems_to_download"

text \<open>A regular file stands where \<^verbatim>\<open>os.makedirs\<close> has to make a directory.\<close>

definition obstructed :: "world \<Rightarrow> path \<Rightarrow> bool" where
  "obstructed w p \<longleftrightarrow> (\<exists>q \<in> set (ancestors p). q \<notin> fs_dirs w \<and> fs_files w q \<noteq> None)"

text \<open>The environment after the directory of a platform was made.\<close>

definition with_dirs :: "string \<Rightarrow> world \<Rightarrow> world" where
  "with_dirs sys w = w\<lparr>fs_dirs := fs_dirs w \<union> set (ancestors (folder_of sys))\<rparr>"

text \<open>The candidates of one version, and what the planner does with the candidates of
  one platform in a given environment: the notices it prints and the tasks it adds.\<close>

definition version_candidates :: "string \<Rightarrow> string \<times> descriptor list \<Rightarrow> task list" where
  "version_candidates sys entry = manifest_of sys (fst entry) # map (artifact_of sys) (snd entry)"

definition notices :: "string \<Rightarrow> version_map \<Rightarrow> world \<Rightarrow> line list" where
  "notices sys vm w =
     map (\<lambda>t. Skipped (display_name t))
       (filter (\<lambda>t. \<not> pending w t) (concat (map (version_candidates sys) vm)))"

definition sha_new :: "string \<Rightarrow> version_map \<Rightarrow> world \<Rightarrow> task list" where
  "sha_new sys vm w = filter (pending w) (map (\<lambda>entry. manifest_of sys (fst entry)) vm)"

definition dl_new :: "string \<Rightarrow> version_map \<Rightarrow> world \<Rightarrow> task list" where
  "dl_new sys vm w =
     filter (pending w) (concat (map (\<lambda>entry. map (artifact_of sys) (snd entry)) vm))"

text \<open>The step of the planner on a platform it makes a directory for.\<close>

definition planned_step :: "string \<Rightarrow> version_map \<Rightarrow> world \<Rightarrow> world" where
  "planned_step sys vm w =
     (with_dirs sys w)\<lparr>console := console w @ notices sys vm (with_dirs sys w)\<rparr>"

section \<open>Scenarios\<close>

text \<open>Concrete environments on which the theorems below are evaluated.\<close>

definition always :: "response \<Rightarrow> string \<Rightarrow> response" where
  "always r u = r"

definition no_files :: "path \<rightharpoonup> content" where
  "no_files = Map.empty"

text \<open>A directory \<^verbatim>\<open>d\<close>, a server that breaks every connection after three bytes, and a
  system that refuses to unlink \<^verbatim>\<open>d/f\<close>.\<close>

definition stuck_world :: world where
  "stuck_world =
     \<lparr>fs_files = no_files, fs_dirs = {''d''}, undeletable = {''d/f''},
      remote = always (Truncated ''par''), api = Net_failure, retrieved = [], console = []\<rparr>"

text \<open>The same, with nothing protected from removal.\<close>

definition loose_world :: world where
  "loose_world =
     \<lparr>fs_files = no_files, fs_dirs = {''d''}, undeletable = {},
      remote = always (Truncated ''par''), api = Net_failure, retrieved = [], console = []\<rparr>"

text \<open>The directories of the Linux platform, and the two tasks of the one-artifact catalog.\<close>

definition linux_dirs :: "path set" where
  "linux_dirs = {''downloads'', ''downloads/Linux'', ''downloads/Linux/Python''}"

definition manifest_task :: task where
  "manifest_task =
     (sha_link ''v1'', ''downloads/Linux/Python/SHA256SUMS-v1.txt'', ''SHA256SUMS-v1.txt'')"

definition artifact_task :: task where
  "artifact_task =
     (''http://x/a'', ''downloads/Linux/Python/py-v1-x86_64.tar.gz'', ''py-v1-x86_64.tar.gz'')"

text \<open>The directories exist, the artifact is served and the manifest is not.\<close>

definition half_served_world :: world where
  "half_served_world =
     \<lparr>fs_files = no_files, fs_dirs = linux_dirs, undeletable = {},
      remote = (always Unreachable)(''http://x/a'' := Complete ''abc''),
      api = Net_failure, retrieved = [], console = []\<rparr>"

text \<open>A release with two artifacts in scope, and three assets that are not: a full
  distribution, an architecture without a label, and a platform without a marker.\<close>

definition sample_release :: release where
  "sample_release =
     \<lparr>tag_name = Some ''20240107'',
      assets = Some
        [\<lparr>name = Some ''cpython-3.12.1-x86_64-unknown-linux-gnu-install_only.tar.gz'',
          browser_download_url = Some ''http://x/linux''\<rparr>,
         \<lparr>name = Some ''cpython-3.12.1-i686-pc-windows-msvc-install_only.tar.gz'',
          browser_download_url = Some ''http://x/win''\<rparr>,
         \<lparr>name = Some ''cpython-3.12.1-x86_64-unknown-linux-gnu-pgo-full.tar.zst'',
          browser_download_url = Some ''http://x/full''\<rparr>,
         \<lparr>name = Some ''cpython-3.12.1-riscv64-unknown-linux-gnu-install_only.tar.gz'',
          browser_download_url = Some ''http://x/riscv''\<rparr>,
         \<lparr>name = Some ''cpython-3.12.1-x86_64-unknown-freebsd-install_only.tar.gz'',
          browser_download_url = Some ''http://x/bsd''\<rparr>]\<rparr>"

definition sample_catalog :: catalog where
  "sample_catalog =
     [(''Linux'',
        [(''20240107'',
          [\<lparr>filename = ''cpython-3.12.1-x86_64-unknown-linux-gnu-install_only.tar.gz'',
            platform = ''x86_64'', url = ''http://x/linux'', sha256 = None\<rparr>])]),
      (''macOS'', []),
      (''Windows'',
        [(''20240107'',
          [\<lparr>filename = ''cpython-3.12.1-i686-pc-windows-msvc-install_only.tar.gz'',
            platform = ''i686'', url = ''http://x/win'', sha256 = None\<rparr>])])]"

definition online_world :: world where
  "online_world =
     \<lparr>fs_files = no_files, fs_dirs = {}, undeletable = {},
      remote = always (Complete ''abc''), api = Parsed sample_release,
      retrieved = [], console = []\<rparr>"

text \<open>A release whose only asset is the checksum file of an artifact.\<close>

definition sidecar_release :: release where
  "sidecar_release =
     \<lparr>tag_name = Some ''20240107'',
      assets = Some
        [\<lparr>name = Some ''cpython-3.12.1-x86_64-unknown-linux-gnu-install_only.tar.gz.sha256'',
          browser_download_url = Some ''http://x/sum''\<rparr>]\<rparr>"

definition sidecar_world :: world where
  "sidecar_world =
     \<lparr>fs_files = no_files, fs_dirs = {}, undeletable = {},
      remote = always (Complete ''abc''), api = Parsed sidecar_release,
      retrieved = [], console = []\<rparr>"

text \<open>The arguments that select Linux, with three workers.\<close>

definition linux_args :: args where
  "linux_args = \<lparr>arg_system = ''Linux'', arg_workers = 3\<rparr>"

text \<open>The one-artifact catalog, an empty disk behind servers that deliver, and a disk that
  already holds the manifest and the artifact.\<close>

definition demo_catalog :: catalog where
  "demo_catalog =
     [(''Linux'',
        [(''v1'', [\<lparr>filename = ''py-v1-x86_64.tar.gz'', platform = ''x86_64'',
                   url = ''http://x/a'', sha256 = None\<rparr>])]),
      (''macOS'', []), (''Windows'', [])]"

definition fresh_world :: world where
  "fresh_world =
     \<lparr>fs_files = no_files, fs_dirs = {}, undeletable = {},
      remote = always (Complete ''abc''), api = Net_failure, retrieved = [], console = []\<rparr>"

definition complete_world :: world where
  "complete_world =
     \<lparr>fs_files = no_files(''downloads/Linux/Python/SHA256SUMS-v1.txt'' \<mapsto> ''sums'',
                         ''downloads/Linux/Python/py-v1-x86_64.tar.gz'' \<mapsto> ''old''),
      fs_dirs = linux_dirs, undeletable = {},
      remote = always (Complete ''abc''), api = Net_failure, retrieved = [], console = []\<rparr>"

text \<open>The directories exist and the artifact is on the disk; the manifest is not.\<close>

definition artifact_present_world :: world where
  "artifact_present_world =
     \<lparr>fs_files = no_files(''downloads/Linux/Python/py-v1-x86_64.tar.gz'' \<mapsto> ''old''),
      fs_dirs = linux_dirs, undeletable = {},
      remote = always (Complete ''abc''), api = Net_failure, retrieved = [], console = []\<rparr>"

text \<open>A payload without a release tag.\<close>

definition untagged_release :: release where
  "untagged_release =
     \<lparr>tag_name = None,
      assets = Some
        [\<lparr>name = Some ''cpython-3.12.1-x86_64-unknown-linux-gnu-install_only.tar.gz'',
          browser_download_url = Some ''http://x/linux''\<rparr>]\<rparr>"

definition untagged_world :: world where
  "untagged_world =
     \<lparr>fs_files = no_files, fs_dirs = {}, undeletable = {},
      remote = always (Complete ''abc''), api = Parsed untagged_release,
      retrieved = [], console = []\<rparr>"

text \<open>The two tasks of Linux for the sample release; a server that delivers the manifest
  and nothing else; and the environments after the first and the second run of
  \<^verbatim>\<open>main\<close> against it, and after the first run against the servers that deliver.\<close>

definition sample_manifest_task :: task where
  "sample_manifest_task =
     (sha_link ''20240107'', ''downloads/Linux/Python/SHA256SUMS-20240107.txt'',
      ''SHA256SUMS-20240107.txt'')"

definition sample_artifact_task :: task where
  "sample_artifact_task =
     (''http://x/linux'',
      ''downloads/Linux/Python/cpython-3.12.1-x86_64-unknown-linux-gnu-install_only.tar.gz'',
      ''cpython-3.12.1-x86_64-unknown-linux-gnu-install_only.tar.gz'')"

definition linux_listing :: catalog where
  "linux_listing =
     [(''Linux'',
        [(''20240107'',
          [\<lparr>filename = ''cpython-3.12.1-x86_64-unknown-linux-gnu-install_only.tar.gz'',
            platform = ''x86_64'', url = ''http://x/linux'', sha256 = None\<rparr>])])]"

definition flaky_world :: world where
  "flaky_world =
     \<lparr>fs_files = no_files, fs_dirs = {}, undeletable = {},
      remote = (always Unreachable)(sha_link ''20240107'' := Complete ''sums''),
      api = Parsed sample_release, retrieved = [], console = []\<rparr>"

definition flaky_after_first :: world where
  "flaky_after_first =
     flaky_world
       \<lparr>fs_files := no_files(''downloads/Linux/Python/SHA256SUMS-20240107.txt'' \<mapsto> ''sums''),
        fs_dirs := linux_dirs,
        retrieved := [sha_link ''20240107'', ''http://x/linux''],
        console :=
          [Fetching [''Linux''], Rule, Dump linux_listing, Rule, Blank, Preparing 2 3,
           Starting ''SHA256SUMS-20240107.txt'', Finished ''SHA256SUMS-20240107.txt'',
           Starting ''cpython-3.12.1-x86_64-unknown-linux-gnu-install_only.tar.gz'',
           Failed ''cpython-3.12.1-x86_64-unknown-linux-gnu-install_only.tar.gz'' URLError,
           Tally 1 1, Stats_header, Stats ''Linux'' 1]\<rparr>"

definition flaky_after_second :: world where
  "flaky_after_second =
     flaky_after_first
       \<lparr>retrieved := [sha_link ''20240107'', ''http://x/linux'', ''http://x/linux''],
        console := console flaky_after_first @
          [Fetching [''Linux''], Rule, Dump linux_listing, Rule, Blank,
           Skipped ''SHA256SUMS-20240107.txt'', Preparing 1 3,
           Starting ''cpython-3.12.1-x86_64-unknown-linux-gnu-install_only.tar.gz'',
           Failed ''cpython-3.12.1-x86_64-unknown-linux-gnu-install_only.tar.gz'' URLError,
           Tally 0 1, Stats_header, Stats ''Linux'' 1]\<rparr>"

definition online_after_first :: world where
  "online_after_first =
     online_world
       \<lparr>fs_files := no_files
          (''downloads/Linux/Python/SHA256SUMS-20240107.txt'' \<mapsto> ''abc'',
           ''downloads/Linux/Python/cpython-3.12.1-x86_64-unknown-linux-gnu-install_only.tar.gz''
             \<mapsto> ''abc''),
        fs_dirs := linux_dirs,
        retrieved := [sha_link ''20240107'', ''http://x/linux''],
        console :=
          [Fetching [''Linux''], Rule, Dump linux_listing, Rule, Blank, Preparing 2 3,
           Starting ''SHA256SUMS-20240107.txt'', Finished ''SHA256SUMS-20240107.txt'',
           Starting ''cpython-3.12.1-x86_64-unknown-linux-gnu-install_only.tar.gz'',
           Finished ''cpython-3.12.1-x86_64-unknown-linux-gnu-install_only.tar.gz'',
           Tally 2 0, Stats_header, Stats ''Linux'' 1]\<rparr>"

section \<open>What one download changes\<close>

lemma print_frame [simp]:
  "remote (thread_safe_print l w) = remote w"
  "fs_dirs (thread_safe_print l w) = fs_dirs w"
  "fs_files (thread_safe_print l w) = fs_files w"
  "undeletable (thread_safe_print l w) = undeletable w"
  "api (thread_safe_print l w) = api w"
  "retrieved (thread_safe_print l w) = retrieved w"
  "console (thread_safe_print l w) = console w @ [l]"
  by (simp_all add: thread_safe_print_def)

lemma urlretrieve_frame [simp]:
  "remote (snd (urlretrieve u p w)) = remote w"
  "fs_dirs (snd (urlretrieve u p w)) = fs_dirs w"
  "undeletable (snd (urlretrieve u p w)) = undeletable w"
  "api (snd (urlretrieve u p w)) = api w"
  "console (snd (urlretrieve u p w)) = console w"
  "retrieved (snd (urlretrieve u p w)) = retrieved w @ [u]"
  by (simp_all add: urlretrieve_def Let_def split: response.split)

lemma urlretrieve_result_cong:
  assumes "remote w' = remote w" and "fs_dirs w' = fs_dirs w"
  shows "fst (urlretrieve u p w') = fst (urlretrieve u p w)"
  using assms by (simp add: urlretrieve_def Let_def split: response.split)

lemma os_remove_frame:
  assumes "os_remove p w = Inr w'"
  shows "remote w' = remote w" "fs_dirs w' = fs_dirs w" "undeletable w' = undeletable w"
    "api w' = api w" "console w' = console w" "retrieved w' = retrieved w"
    "fs_files w' = (fs_files w)(p := None)"
  using assms by (auto simp: os_remove_def split: if_splits)

text \<open>The three ways a download ends: the transfer succeeded; it failed and the destination
  was removed; it failed and nothing was removed.\<close>

lemma dsf_cases:
  obtains (ok) "fst (urlretrieve u p (thread_safe_print (Starting n) w)) = Inr ()"
      "download_single_file u p n w
         = ((True, n), thread_safe_print (Finished n)
                         (snd (urlretrieve u p (thread_safe_print (Starting n) w))))"
  | (removed) e w3 where "fst (urlretrieve u p (thread_safe_print (Starting n) w)) = Inl e"
      "os_remove p (thread_safe_print (Failed n e)
                         (snd (urlretrieve u p (thread_safe_print (Starting n) w)))) = Inr w3"
      "download_single_file u p n w = ((False, n), w3)"
  | (kept) e where "fst (urlretrieve u p (thread_safe_print (Starting n) w)) = Inl e"
      "download_single_file u p n w
         = ((False, n), thread_safe_print (Failed n e)
                          (snd (urlretrieve u p (thread_safe_print (Starting n) w))))"
proof (cases "urlretrieve u p (thread_safe_print (Starting n) w)")
  case (Pair r w1)
  show ?thesis
  proof (cases r)
    case (Inr x)
    with Pair show ?thesis by (intro ok) (simp_all add: download_single_file_def)
  next
    case (Inl e)
    show ?thesis
    proof (cases "path_exists (thread_safe_print (Failed n e) w1) p")
      case False
      with Pair Inl show ?thesis by (intro kept [of e]) (simp_all add: download_single_file_def)
    next
      case True
      show ?thesis
      proof (cases "os_remove p (thread_safe_print (Failed n e) w1)")
        case (Inl e')
        with Pair \<open>r = Inl e\<close> True show ?thesis
          by (intro kept [of e]) (simp_all add: download_single_file_def)
      next
        case (Inr w3)
        with Pair \<open>r = Inl e\<close> True show ?thesis
          by (intro removed [of e w3]) (simp_all add: download_single_file_def)
      qed
    qed
  qed
qed

lemma dsf_frame [simp]:
  "remote (snd (download_single_file u p n w)) = remote w"
  "fs_dirs (snd (download_single_file u p n w)) = fs_dirs w"
  "undeletable (snd (download_single_file u p n w)) = undeletable w"
  "api (snd (download_single_file u p n w)) = api w"
  "retrieved (snd (download_single_file u p n w)) = retrieved w @ [u]"
  by (cases u p n w rule: dsf_cases; simp add: os_remove_frame)+

lemma dsf_outcome:
  "fst (download_single_file u p n w)
     = (case fst (urlretrieve u p (thread_safe_print (Starting n) w)) of
          Inr _ \<Rightarrow> (True, n) | Inl _ \<Rightarrow> (False, n))"
  by (cases u p n w rule: dsf_cases) simp_all

text \<open>Whether a download succeeds depends on the servers and on the directories only,
  and a download changes neither.\<close>

lemma dsf_outcome_cong:
  assumes "remote w' = remote w" and "fs_dirs w' = fs_dirs w"
  shows "fst (download_single_file u p n w') = fst (download_single_file u p n w)"
proof -
  have "fst (urlretrieve u p (thread_safe_print (Starting n) w'))
          = fst (urlretrieve u p (thread_safe_print (Starting n) w))"
    using assms by (intro urlretrieve_result_cong) simp_all
  then show ?thesis by (simp add: dsf_outcome)
qed

section \<open>Cleanup after a failed transfer\<close>

text \<open>
  C1, as stated: after a download task whose transfer raised an error, no file remains at
  the destination path. This fails when the removal itself fails: the script swallows
  that error and records the failure with the partial file still in place. In
  \<open>stuck_world\<close> the transfer to \<^verbatim>\<open>d/f\<close> breaks after the bytes \<^verbatim>\<open>par\<close>, the system refuses
  to unlink the file, the outcome is a failure and the partial file is still there.
\<close>

theorem failed_download_may_leave_file:
  "fst (download_single_file ''http://x/a'' ''d/f'' ''f'' stuck_world) = (False, ''f'')
   \<and> fs_files (snd (download_single_file ''http://x/a'' ''d/f'' ''f'' stuck_world)) ''d/f''
       = Some ''par''"
  by (simp add: download_single_file_def urlretrieve_def thread_safe_print_def stuck_world_def
      always_def no_files_def parent_dir_def sep_def path_exists_def os_remove_def)

text \<open>
  C1, amended: when the transfer of a download task raises an error, the task's outcome
  is a failure, and if the removal of the destination is not refused (the destination is
  not a directory and the system does not refuse to unlink it), no file remains at the
  destination path afterwards.
\<close>

theorem failed_download_leaves_no_file:
  assumes "fst (urlretrieve u p (thread_safe_print (Starting n) w)) = Inl e"
    and "p \<notin> fs_dirs w" and "p \<notin> undeletable w"
  shows "fst (download_single_file u p n w) = (False, n)
     \<and> fs_files (snd (download_single_file u p n w)) p = None"
  using assms
  by (auto simp: download_single_file_def urlretrieve_def thread_safe_print_def Let_def
      path_exists_def os_remove_def split: response.splits if_splits prod.splits sum.splits)

theorem failed_download_leaves_no_file_witness:
  "fst (urlretrieve ''http://x/a'' ''d/f'' (thread_safe_print (Starting ''f'') loose_world))
     = Inl ContentTooShortError
   \<and> ''d/f'' \<notin> fs_dirs loose_world \<and> ''d/f'' \<notin> undeletable loose_world
   \<and> fst (download_single_file ''http://x/a'' ''d/f'' ''f'' loose_world) = (False, ''f'')
   \<and> fs_files (snd (download_single_file ''http://x/a'' ''d/f'' ''f'' loose_world)) ''d/f''
       = None"
  using failed_download_leaves_no_file
    [of "''http://x/a''" "''d/f''" "''f''" loose_world ContentTooShortError]
  by (simp add: urlretrieve_def thread_safe_print_def loose_world_def always_def no_files_def
      parent_dir_def sep_def)

section \<open>Failure isolation and the tally\<close>

lemma run_tasks_outcomes:
  "fst (run_tasks ts w) = map (\<lambda>(u, p, n). fst (download_single_file u p n w)) ts"
proof (induction ts arbitrary: w)
  case Nil
  show ?case by simp
next
  case (Cons t ts)
  obtain u p n where t: "t = (u, p, n)" by (cases t)
  let ?w1 = "snd (download_single_file u p n w)"
  have same: "fst (download_single_file u' p' n' ?w1) = fst (download_single_file u' p' n' w)"
    for u' p' n'
    by (rule dsf_outcome_cong) simp_all
  have "fst (run_tasks ts ?w1) = map (\<lambda>(u, p, n). fst (download_single_file u p n ?w1)) ts"
    by (rule Cons.IH)
  then have "fst (run_tasks ts ?w1) = map (\<lambda>(u, p, n). fst (download_single_file u p n w)) ts"
    by (simp add: same)
  then show ?case
    by (simp add: t split_beta)
qed

lemma count_outcomes_eq:
  "count_outcomes rs s f
     = (s + length (filter fst rs), f + length (filter (\<lambda>r. \<not> fst r) rs))"
  by (induction rs s f rule: count_outcomes.induct) auto

text \<open>The futures are counted as they finish, in an order the pool decides. The counts do
  not depend on that order.\<close>

lemma count_outcomes_any_order:
  assumes "mset rs' = mset rs"
  shows "count_outcomes rs' s f = count_outcomes rs s f"
proof -
  have "mset (filter P rs') = mset (filter P rs)" for P
    using assms by simp
  then have "length (filter P rs') = length (filter P rs)" for P
    by (metis size_mset)
  then show ?thesis
    by (simp add: count_outcomes_eq)
qed

text \<open>
  C2: for every sequence of submitted tasks (the manifest tasks followed by the artifact
  tasks, on a pool that could be built, that is with a positive number of workers), the
  list of outcomes has exactly one entry per task, in the order of submission, and the
  entry of a task is the outcome that task has when it runs alone in the initial
  environment: no other task, failing or not, changes it. The engine returns without an
  exception, and the tally it prints counts the successes and the failures, which add up
  to the number of submitted tasks.
\<close>

theorem engine_isolates_failures:
  assumes "0 < max_workers"
  shows "fst (run_tasks (sha_tasks @ download_tasks) w)
           = map (\<lambda>(u, p, n). fst (download_single_file u p n w)) (sha_tasks @ download_tasks)
       \<and> (\<exists>success_count failed_count.
            run_pool max_workers sha_tasks download_tasks w
              = Inr (thread_safe_print (Tally success_count failed_count)
                       (snd (run_tasks (sha_tasks @ download_tasks) w)))
          \<and> success_count = length (filter fst (fst (run_tasks (sha_tasks @ download_tasks) w)))
          \<and> failed_count
              = length (filter (\<lambda>r. \<not> fst r) (fst (run_tasks (sha_tasks @ download_tasks) w)))
          \<and> success_count + failed_count = length (sha_tasks @ download_tasks))"
proof -
  let ?ts = "sha_tasks @ download_tasks"
  let ?rs = "fst (run_tasks ?ts w)"
  have len: "length ?rs = length ?ts"
    by (simp add: run_tasks_outcomes del: map_append)
  have "length (filter fst ?rs) + length (filter (\<lambda>r. \<not> fst r) ?rs) = length ?rs"
    by (rule sum_length_filter_compl)
  with len have total:
    "length (filter fst ?rs) + length (filter (\<lambda>r. \<not> fst r) ?rs) = length ?ts"
    by simp
  have "run_pool max_workers sha_tasks download_tasks w
          = Inr (thread_safe_print
                  (Tally (length (filter fst ?rs)) (length (filter (\<lambda>r. \<not> fst r) ?rs)))
                  (snd (run_tasks ?ts w)))"
    using assms by (simp add: run_pool_def Let_def split_beta count_outcomes_eq)
  with total show ?thesis
    using run_tasks_outcomes [of ?ts w] by blast
qed

lemma half_served_outcomes:
  "fst (run_tasks [manifest_task, artifact_task] half_served_world)
     = [(False, ''SHA256SUMS-v1.txt''), (True, ''py-v1-x86_64.tar.gz'')]"
  by (simp add: manifest_task_def artifact_task_def half_served_world_def
      download_single_file_def urlretrieve_def thread_safe_print_def always_def sha_link_def
      no_files_def linux_dirs_def parent_dir_def sep_def path_exists_def os_remove_def)

theorem engine_isolates_failures_witness:
  "(0::int) < 3
   \<and> fst (run_tasks ([manifest_task] @ [artifact_task]) half_served_world)
       = [(False, ''SHA256SUMS-v1.txt''), (True, ''py-v1-x86_64.tar.gz'')]
   \<and> run_pool 3 [manifest_task] [artifact_task] half_served_world
       = Inr (thread_safe_print (Tally 1 1)
                (snd (run_tasks ([manifest_task] @ [artifact_task]) half_served_world)))"
  using engine_isolates_failures [of 3 "[manifest_task]" "[artifact_task]" half_served_world]
    half_served_outcomes
  by auto

section \<open>What the engine changes\<close>

lemma urlretrieve_ok:
  assumes "fst (urlretrieve u p w) = Inr ()"
  shows "\<exists>c. remote w u = Complete c \<and> fs_files (snd (urlretrieve u p w)) = (fs_files w)(p \<mapsto> c)"
  using assms by (auto simp: urlretrieve_def Let_def split: response.splits if_splits)

lemma urlretrieve_complete:
  assumes "remote w u = Complete c" and "p \<notin> fs_dirs w" and "parent_dir p \<in> fs_dirs w"
  shows "urlretrieve u p w
           = (Inr (), w\<lparr>retrieved := retrieved w @ [u], fs_files := (fs_files w)(p \<mapsto> c)\<rparr>)"
  using assms by (simp add: urlretrieve_def Let_def)

lemma urlretrieve_files_other:
  assumes "q \<noteq> p"
  shows "fs_files (snd (urlretrieve u p w)) q = fs_files w q"
  using assms by (simp add: urlretrieve_def Let_def split: response.split)

lemma dsf_files_other:
  assumes "q \<noteq> p"
  shows "fs_files (snd (download_single_file u p n w)) q = fs_files w q"
  using assms
  by (cases u p n w rule: dsf_cases) (simp_all add: os_remove_frame urlretrieve_files_other)

lemma dsf_success:
  assumes "fst (fst (download_single_file u p n w))"
  shows "\<exists>c. remote w u = Complete c
           \<and> fs_files (snd (download_single_file u p n w)) = (fs_files w)(p \<mapsto> c)
           \<and> console (snd (download_single_file u p n w)) = console w @ [Starting n, Finished n]"
proof (cases u p n w rule: dsf_cases)
  case ok
  from urlretrieve_ok [OF ok(1)] ok(2) show ?thesis by simp
next
  case (removed e w3)
  with assms show ?thesis by simp
next
  case (kept e)
  with assms show ?thesis by simp
qed

lemma dsf_failure:
  assumes "\<not> fst (fst (download_single_file u p n w))"
  shows "\<exists>e. console (snd (download_single_file u p n w)) = console w @ [Starting n, Failed n e]"
proof (cases u p n w rule: dsf_cases)
  case ok
  with assms show ?thesis by simp
next
  case (removed e w3)
  from os_remove_frame(5) [OF removed(2)] removed(3) show ?thesis by simp
next
  case (kept e)
  then show ?thesis by simp
qed

lemma dsf_console_prefix:
  "prefix (console w) (console (snd (download_single_file u p n w)))"
  using dsf_success [of u p n w] dsf_failure [of u p n w]
  by (cases "fst (fst (download_single_file u p n w))") auto

lemma run_tasks_Cons:
  "run_tasks (t # ts) w
     = (fst (download_single_file (fst t) (destination t) (display_name t) w)
          # fst (run_tasks ts (snd (download_single_file (fst t) (destination t) (display_name t) w))),
        snd (run_tasks ts (snd (download_single_file (fst t) (destination t) (display_name t) w))))"
  by (cases t) (simp add: destination_def display_name_def split_beta)

lemma run_tasks_frame_all:
  "remote (snd (run_tasks ts w)) = remote w
   \<and> fs_dirs (snd (run_tasks ts w)) = fs_dirs w
   \<and> undeletable (snd (run_tasks ts w)) = undeletable w
   \<and> api (snd (run_tasks ts w)) = api w
   \<and> retrieved (snd (run_tasks ts w)) = retrieved w @ map fst ts"
  by (induction ts arbitrary: w) (simp_all add: run_tasks_Cons del: run_tasks.simps(2))

lemma run_tasks_frame [simp]:
  "remote (snd (run_tasks ts w)) = remote w"
  "fs_dirs (snd (run_tasks ts w)) = fs_dirs w"
  "undeletable (snd (run_tasks ts w)) = undeletable w"
  "api (snd (run_tasks ts w)) = api w"
  "retrieved (snd (run_tasks ts w)) = retrieved w @ map fst ts"
  using run_tasks_frame_all [of ts w] by simp_all

lemma run_tasks_console_prefix:
  "prefix (console w) (console (snd (run_tasks ts w)))"
proof (induction ts arbitrary: w)
  case Nil
  show ?case by simp
next
  case (Cons t ts)
  show ?case
    unfolding run_tasks_Cons snd_conv
    by (rule prefix_order.trans [OF dsf_console_prefix Cons.IH])
qed

lemma run_tasks_files_other:
  assumes "q \<notin> destination ` set ts"
  shows "fs_files (snd (run_tasks ts w)) q = fs_files w q"
  using assms
proof (induction ts arbitrary: w)
  case Nil
  show ?case by simp
next
  case (Cons t ts)
  then have "q \<noteq> destination t" "q \<notin> destination ` set ts" by auto
  then show ?case
    unfolding run_tasks_Cons snd_conv
    by (simp add: Cons.IH dsf_files_other)
qed

text \<open>A failed task leaves its line on the console.\<close>

lemma run_tasks_failure_visible:
  assumes "\<exists>r \<in> set (fst (run_tasks ts w)). \<not> fst r"
  shows "\<exists>n e. Failed n e \<in> set (console (snd (run_tasks ts w)))"
  using assms
proof (induction ts arbitrary: w)
  case Nil
  then show ?case by simp
next
  case (Cons t ts)
  let ?d = "download_single_file (fst t) (destination t) (display_name t) w"
  show ?case
  proof (cases "fst (fst ?d)")
    case True
    with Cons.prems have "\<exists>r \<in> set (fst (run_tasks ts (snd ?d))). \<not> fst r"
      by (simp add: run_tasks_Cons del: run_tasks.simps)
    from Cons.IH [OF this] show ?thesis
      by (simp add: run_tasks_Cons del: run_tasks.simps)
  next
    case False
    from dsf_failure [OF this] obtain e where
      "console (snd ?d) = console w @ [Starting (display_name t), Failed (display_name t) e]"
      by blast
    then have "Failed (display_name t) e \<in> set (console (snd ?d))"
      by simp
    with set_mono_prefix [OF run_tasks_console_prefix [of "snd ?d" ts]]
    show ?thesis
      by (auto simp: run_tasks_Cons simp del: run_tasks.simps)
  qed
qed

text \<open>When every task succeeds, files are only added, and every destination has one.\<close>

lemma run_tasks_all_succeed:
  assumes "\<forall>r \<in> set (fst (run_tasks ts w)). fst r"
  shows "(\<forall>q. fs_files w q \<noteq> None \<longrightarrow> fs_files (snd (run_tasks ts w)) q \<noteq> None)
       \<and> (\<forall>t \<in> set ts. fs_files (snd (run_tasks ts w)) (destination t) \<noteq> None)"
  using assms
proof (induction ts arbitrary: w)
  case Nil
  show ?case by simp
next
  case (Cons t ts)
  let ?d = "download_single_file (fst t) (destination t) (display_name t) w"
  from Cons.prems have ok: "fst (fst ?d)" and rest: "\<forall>r \<in> set (fst (run_tasks ts (snd ?d))). fst r"
    by (simp_all add: run_tasks_Cons del: run_tasks.simps)
  from dsf_success [OF ok] obtain c where
    files: "fs_files (snd ?d) = (fs_files w)(destination t \<mapsto> c)"
    by blast
  from Cons.IH [OF rest] have
    keep: "\<And>q. fs_files (snd ?d) q \<noteq> None \<Longrightarrow> fs_files (snd (run_tasks ts (snd ?d))) q \<noteq> None"
    and dests: "\<forall>t' \<in> set ts. fs_files (snd (run_tasks ts (snd ?d))) (destination t') \<noteq> None"
    by blast+
  have "fs_files (snd (run_tasks ts (snd ?d))) q \<noteq> None" if "fs_files w q \<noteq> None" for q
    using that by (intro keep) (simp add: files)
  moreover have "fs_files (snd (run_tasks ts (snd ?d))) (destination t) \<noteq> None"
    by (intro keep) (simp add: files)
  ultimately show ?case
    using dests by (simp add: run_tasks_Cons del: run_tasks.simps)
qed

lemma run_pool_eq:
  "run_pool max_workers sha dl w
     = (if max_workers \<le> 0 then Inl ValueError
        else Inr (thread_safe_print
                    (Tally (length (filter fst (fst (run_tasks (sha @ dl) w))))
                           (length (filter (\<lambda>r. \<not> fst r) (fst (run_tasks (sha @ dl) w)))))
                    (snd (run_tasks (sha @ dl) w))))"
  by (simp add: run_pool_def Let_def split_beta count_outcomes_eq)

section \<open>The catalog builder: what it lists\<close>

lemma classify_system:
  assumes "classify nm = (Some sys, info)"
  shows "sys \<in> set SYSTEMS"
  using assms by (auto simp: classify_def SYSTEMS_def split: if_splits)

lemma update_keys_present:
  assumes "k \<in> fst ` set al"
  shows "map fst (AList.update k v al) = map fst al"
  using assms by (simp add: update_keys)

lemma in_set_updateD:
  assumes "(k', v') \<in> set (AList.update k v al)"
  shows "(k', v') = (k, v) \<or> (k', v') \<in> set al"
  using assms by (induction al) (auto split: if_splits)

text \<open>Adding a descriptor under a platform that is a key of the catalog does not raise
  and keeps the keys.\<close>

lemma add_descriptor_total:
  assumes "sys \<in> fst ` set result"
  obtains vm vm1 ds where "map_of result sys = Some vm"
    and "vm1 = (if map_of vm version = None then AList.update version [] vm else vm)"
    and "map_of vm1 version = Some ds"
    and "add_descriptor sys version d result
           = Inr (AList.update sys (AList.update version (ds @ [d]) vm1) result)"
proof -
  from assms obtain vm where vm: "map_of result sys = Some vm"
    by (metis domD dom_map_of_conv_image_fst)
  define vm1 where "vm1 = (if map_of vm version = None then AList.update version [] vm else vm)"
  have "map_of vm1 version \<noteq> None"
    by (simp add: vm1_def update_conv')
  then obtain ds where ds: "map_of vm1 version = Some ds"
    by blast
  have "add_descriptor sys version d result
           = Inr (AList.update sys (AList.update version (ds @ [d]) vm1) result)"
    using vm ds by (simp add: add_descriptor_def vm1_def Let_def)
  with vm vm1_def ds show thesis
    by (rule that)
qed

lemma add_descriptor_keys:
  assumes "sys \<in> fst ` set result"
  shows "\<exists>result1. add_descriptor sys version d result = Inr result1
           \<and> map fst result1 = map fst result"
proof (rule add_descriptor_total [OF assms, where version = version and d = d])
  fix vm vm1 ds
  assume "add_descriptor sys version d result
            = Inr (AList.update sys (AList.update version (ds @ [d]) vm1) result)"
  with assms show ?thesis
    by (simp add: update_keys_present)
qed

lemma add_descriptor_all:
  assumes "all_descriptors P result" and "P sys version d"
    and "add_descriptor sys version d result = Inr result1"
  shows "all_descriptors P result1"
proof -
  from assms(3) have "sys \<in> fst ` set result"
    by (auto simp: add_descriptor_def dom_map_of_conv_image_fst [symmetric]
        split: option.splits)
  then show ?thesis
  proof (rule add_descriptor_total [where version = version and d = d])
    fix vm vm1 ds
    assume vm: "map_of result sys = Some vm"
      and vm1: "vm1 = (if map_of vm version = None then AList.update version [] vm else vm)"
      and ds: "map_of vm1 version = Some ds"
      and eq: "add_descriptor sys version d result
                 = Inr (AList.update sys (AList.update version (ds @ [d]) vm1) result)"
    from vm have in_result: "(sys, vm) \<in> set result"
      by (rule map_of_SomeD)
    have vm1_ok: "P sys v' d'" if "(v', ds') \<in> set vm1" "d' \<in> set ds'" for v' ds' d'
    proof (cases "(v', ds') \<in> set vm")
      case True
      with in_result that assms(1) show ?thesis
        unfolding all_descriptors_def by blast
    next
      case False
      with that(1) have "(v', ds') = (version, [])"
        unfolding vm1 by (auto dest: in_set_updateD split: if_splits)
      with that(2) show ?thesis by simp
    qed
    from ds have "(version, ds) \<in> set vm1"
      by (rule map_of_SomeD)
    then have old: "P sys version d'" if "d' \<in> set ds" for d'
      using vm1_ok that by blast
    have new_vm: "P sys v' d'"
      if "(v', ds') \<in> set (AList.update version (ds @ [d]) vm1)" "d' \<in> set ds'" for v' ds' d'
      using in_set_updateD [OF that(1)] that(2) old vm1_ok assms(2) by auto
    have r1: "result1 = AList.update sys (AList.update version (ds @ [d]) vm1) result"
      using eq assms(3) by simp
    have "P sys' v' d'"
      if "(sys', vm') \<in> set result1" "(v', ds') \<in> set vm'" "d' \<in> set ds'"
      for sys' vm' v' ds' d'
    proof -
      from that(1) consider "(sys', vm') = (sys, AList.update version (ds @ [d]) vm1)"
        | "(sys', vm') \<in> set result"
        unfolding r1 by (blast dest: in_set_updateD)
      then show ?thesis
      proof cases
        case 1
        with that(2,3) show ?thesis by (auto intro: new_vm)
      next
        case 2
        with that(2,3) assms(1) show ?thesis
          unfolding all_descriptors_def by blast
      qed
    qed
    then show ?thesis
      unfolding all_descriptors_def by blast
  qed
qed

lemma add_descriptor_other:
  assumes "add_descriptor sys' version d result = Inr result1" and "sys \<noteq> sys'"
  shows "map_of result1 sys = map_of result sys"
  using assms
  by (auto simp: add_descriptor_def Let_def update_conv' split: option.splits if_splits)

lemma scan_assets_keys:
  assumes "map fst result = SYSTEMS"
  shows "\<exists>result1. scan_assets version rest result = Inr result1 \<and> map fst result1 = SYSTEMS"
  using assms
proof (induction rest arbitrary: result)
  case Nil
  then show ?case by simp
next
  case (Cons a rest)
  let ?nm = "get_or_empty (name a)"
  obtain sys_opt info where cl: "classify ?nm = (sys_opt, info)"
    by (cases "classify ?nm")
  show ?case
  proof (cases "occurs_in ''install_only.tar.gz'' ?nm \<and> sys_opt \<noteq> None \<and> info \<noteq> []")
    case False
    then have "scan_assets version (a # rest) result = scan_assets version rest result"
      using cl by (auto simp: Let_def split: option.splits)
    with Cons show ?thesis by simp
  next
    case True
    then obtain sys where sys: "sys_opt = Some sys" by blast
    let ?d = "\<lparr>filename = ?nm, platform = info, url = get_or_empty (browser_download_url a),
               sha256 = None\<rparr>"
    have "sys \<in> set SYSTEMS"
      using cl sys by (auto intro: classify_system)
    then have "sys \<in> fst ` set result"
      using Cons.prems by (metis set_map)
    then obtain result1 where r1: "add_descriptor sys version ?d result = Inr result1"
      and keys: "map fst result1 = map fst result"
      using add_descriptor_keys by blast
    have "scan_assets version (a # rest) result = scan_assets version rest result1"
      using True cl sys r1 by (simp add: Let_def)
    moreover have "map fst result1 = SYSTEMS"
      using keys Cons.prems by simp
    ultimately show ?thesis
      using Cons.IH [of result1] by simp
  qed
qed

lemma scan_assets_all:
  assumes "all_descriptors P result"
    and "scan_assets version rest result = Inr result1"
    and "\<And>a sys info. a \<in> set rest \<Longrightarrow> occurs_in ''install_only.tar.gz'' (get_or_empty (name a))
          \<Longrightarrow> classify (get_or_empty (name a)) = (Some sys, info) \<Longrightarrow> info \<noteq> []
          \<Longrightarrow> P sys version \<lparr>filename = get_or_empty (name a), platform = info,
                 url = get_or_empty (browser_download_url a), sha256 = None\<rparr>"
  shows "all_descriptors P result1"
  using assms
proof (induction rest arbitrary: result)
  case Nil
  then show ?case by simp
next
  case (Cons a rest)
  let ?nm = "get_or_empty (name a)"
  obtain sys_opt info where cl: "classify ?nm = (sys_opt, info)"
    by (cases "classify ?nm")
  show ?case
  proof (cases "occurs_in ''install_only.tar.gz'' ?nm \<and> sys_opt \<noteq> None \<and> info \<noteq> []")
    case False
    then have "scan_assets version (a # rest) result = scan_assets version rest result"
      using cl by (auto simp: Let_def split: option.splits)
    with Cons.prems(2) have "scan_assets version rest result = Inr result1" by simp
    with Cons.prems(1) show ?thesis
      by (rule Cons.IH) (rule Cons.prems(3), simp_all)
  next
    case True
    then obtain sys where sys: "sys_opt = Some sys" by blast
    let ?d = "\<lparr>filename = ?nm, platform = info, url = get_or_empty (browser_download_url a),
               sha256 = None\<rparr>"
    have step: "scan_assets version (a # rest) result
                  = (case add_descriptor sys version ?d result of
                       Inl e \<Rightarrow> Inl e | Inr r \<Rightarrow> scan_assets version rest r)"
      using True cl sys by (simp add: Let_def)
    with Cons.prems(2) obtain r where r: "add_descriptor sys version ?d result = Inr r"
      and rest: "scan_assets version rest r = Inr result1"
      by (cases "add_descriptor sys version ?d result") simp_all
    have "P sys version ?d"
      using True cl sys by (intro Cons.prems(3)) simp_all
    with Cons.prems(1) have "all_descriptors P r"
      using r by (rule add_descriptor_all)
    then show ?thesis
      using rest by (rule Cons.IH) (rule Cons.prems(3), simp_all)
  qed
qed

lemma scan_assets_untouched:
  assumes "scan_assets version rest result = Inr result1"
    and "\<And>a info. a \<in> set rest \<Longrightarrow> occurs_in ''install_only.tar.gz'' (get_or_empty (name a))
          \<Longrightarrow> classify (get_or_empty (name a)) = (Some sys, info) \<Longrightarrow> info = []"
  shows "map_of result1 sys = map_of result sys"
  using assms
proof (induction rest arbitrary: result)
  case Nil
  then show ?case by simp
next
  case (Cons a rest)
  let ?nm = "get_or_empty (name a)"
  obtain sys_opt info where cl: "classify ?nm = (sys_opt, info)"
    by (cases "classify ?nm")
  show ?case
  proof (cases "occurs_in ''install_only.tar.gz'' ?nm \<and> sys_opt \<noteq> None \<and> info \<noteq> []")
    case False
    then have "scan_assets version (a # rest) result = scan_assets version rest result"
      using cl by (auto simp: Let_def split: option.splits)
    with Cons.prems(1) have "scan_assets version rest result = Inr result1" by simp
    then show ?thesis
      by (rule Cons.IH) (rule Cons.prems(2), simp_all)
  next
    case True
    then obtain sys' where sys': "sys_opt = Some sys'" by blast
    let ?d = "\<lparr>filename = ?nm, platform = info, url = get_or_empty (browser_download_url a),
               sha256 = None\<rparr>"
    have "sys' \<noteq> sys"
      using Cons.prems(2) [of a info] True cl sys' by auto
    have step: "scan_assets version (a # rest) result
                  = (case add_descriptor sys' version ?d result of
                       Inl e \<Rightarrow> Inl e | Inr r \<Rightarrow> scan_assets version rest r)"
      using True cl sys' by (simp add: Let_def)
    with Cons.prems(1) obtain r where r: "add_descriptor sys' version ?d result = Inr r"
      and rest: "scan_assets version rest r = Inr result1"
      by (cases "add_descriptor sys' version ?d result") simp_all
    have "map_of result1 sys = map_of r sys"
      using rest by (rule Cons.IH) (rule Cons.prems(2), simp_all)
    also have "\<dots> = map_of result sys"
      using r \<open>sys' \<noteq> sys\<close> by (intro add_descriptor_other) auto
    finally show ?thesis .
  qed
qed

lemma all_descriptors_initial: "all_descriptors P (map (\<lambda>sys. (sys, [])) SYSTEMS)"
  by (auto simp: all_descriptors_def)

lemma initial_keys: "map fst (map (\<lambda>sys. (sys, [])) SYSTEMS) = SYSTEMS"
  by (simp add: comp_def)

lemma initial_lookup:
  "map_of (map (\<lambda>sys. (sys, [])) SYSTEMS) sys = (if sys \<in> set SYSTEMS then Some [] else None)"
  by (simp add: SYSTEMS_def)

text \<open>A parsed payload always yields a catalog: either the initial one, when the tag is
  missing or empty, or the one the scan of the assets produces.\<close>

lemma fetch_parsed:
  assumes "api w = Parsed rel"
  obtains (no_tag) "get_or_empty (tag_name rel) = []"
      "fetch_python_versions w = (Some (map (\<lambda>sys. (sys, [])) SYSTEMS), w)"
  | (scanned) cat where "get_or_empty (tag_name rel) \<noteq> []"
      "scan_assets (get_or_empty (tag_name rel)) (payload rel) (map (\<lambda>sys. (sys, [])) SYSTEMS)
         = Inr cat"
      "fetch_python_versions w = (Some cat, w)"
proof (cases "get_or_empty (tag_name rel) = []")
  case True
  with assms have "fetch_python_versions w = (Some (map (\<lambda>sys. (sys, [])) SYSTEMS), w)"
    by (simp add: fetch_python_versions_def)
  with True show ?thesis by (rule no_tag)
next
  case False
  obtain cat where cat:
    "scan_assets (get_or_empty (tag_name rel)) (payload rel) (map (\<lambda>sys. (sys, [])) SYSTEMS)
       = Inr cat"
    using scan_assets_keys [OF initial_keys] by blast
  with assms False have "fetch_python_versions w = (Some cat, w)"
    by (simp add: fetch_python_versions_def)
  with False cat show ?thesis by (rule scanned)
qed

lemma fetch_failed:
  assumes "api w = Net_failure \<or> api w = Malformed"
  shows "fetch_python_versions w
           = (None, thread_safe_print
                      (Fetch_error (if api w = Net_failure then URLError else ValueError)) w)"
  using assms by (auto simp: fetch_python_versions_def)

lemma main_unavailable:
  assumes "fetch_python_versions (thread_safe_print (Fetching sel) w) = (None, w1)"
    and "sel = (if arg_system a = ''all'' then SYSTEMS else [arg_system a])"
  shows "main a w = Inr (1, thread_safe_print Fetch_failed w1)"
  using assms by (simp add: main_def Let_def)


lemma sample_classify:
  "classify ''cpython-3.12.1-x86_64-unknown-linux-gnu-install_only.tar.gz''
     = (Some ''Linux'', ''x86_64'')"
  "classify ''cpython-3.12.1-i686-pc-windows-msvc-install_only.tar.gz''
     = (Some ''Windows'', ''i686'')"
  "classify ''cpython-3.12.1-riscv64-unknown-linux-gnu-install_only.tar.gz''
     = (Some ''Linux'', [])"
  "classify ''cpython-3.12.1-x86_64-unknown-freebsd-install_only.tar.gz'' = (None, [])"
  "classify ''cpython-3.12.1-x86_64-unknown-linux-gnu-install_only.tar.gz.sha256''
     = (Some ''Linux'', ''x86_64'')"
  by (simp_all add: classify_def)

lemma sample_marker:
  "occurs_in ''install_only.tar.gz''
     ''cpython-3.12.1-x86_64-unknown-linux-gnu-install_only.tar.gz''"
  "occurs_in ''install_only.tar.gz'' ''cpython-3.12.1-i686-pc-windows-msvc-install_only.tar.gz''"
  "\<not> occurs_in ''install_only.tar.gz''
     ''cpython-3.12.1-x86_64-unknown-linux-gnu-pgo-full.tar.zst''"
  "occurs_in ''install_only.tar.gz''
     ''cpython-3.12.1-riscv64-unknown-linux-gnu-install_only.tar.gz''"
  "occurs_in ''install_only.tar.gz''
     ''cpython-3.12.1-x86_64-unknown-freebsd-install_only.tar.gz''"
  "occurs_in ''install_only.tar.gz''
     ''cpython-3.12.1-x86_64-unknown-linux-gnu-install_only.tar.gz.sha256''"
  by simp_all

lemma sample_fetch: "fetch_python_versions online_world = (Some sample_catalog, online_world)"
  by (simp add: fetch_python_versions_def online_world_def sample_release_def payload_def
      get_or_empty_def SYSTEMS_def sample_classify sample_marker add_descriptor_def
      sample_catalog_def Let_def del: occurs_in.simps)

text \<open>
  C6, amended: the catalog builder never fails on a parsed payload, and every descriptor of
  the catalog it returns is filed under the release tag and comes from an asset of the
  payload (same file name, same URL) whose name contains the marker
  \<^verbatim>\<open>install_only.tar.gz\<close> and has a platform marker and an architecture marker, the
  descriptor standing under that platform with that architecture label. So an asset
  whose name does not contain the marker, or has no platform marker, or has no
  architecture marker of its platform, is listed under no platform, and dropping it is
  not an error.
\<close>

theorem catalog_is_a_filter:
  assumes "api w = Parsed rel"
  shows "\<exists>cat. fetch_python_versions w = (Some cat, w)
          \<and> all_descriptors
               (\<lambda>sys v d.
                   tag_name rel = Some v
                 \<and> (\<exists>a \<in> set (payload rel).
                       get_or_empty (name a) = filename d
                     \<and> get_or_empty (browser_download_url a) = url d)
                 \<and> occurs_in ''install_only.tar.gz'' (filename d)
                 \<and> classify (filename d) = (Some sys, platform d)
                 \<and> platform d \<noteq> []) cat
          \<and> (\<forall>a \<in> set (payload rel).
                 \<not> occurs_in ''install_only.tar.gz'' (get_or_empty (name a))
               \<or> fst (classify (get_or_empty (name a))) = None
               \<or> snd (classify (get_or_empty (name a))) = []
               \<longrightarrow> all_descriptors (\<lambda>sys v d. filename d \<noteq> get_or_empty (name a)) cat)"
proof -
  let ?P = "\<lambda>sys v d.
                   tag_name rel = Some v
                 \<and> (\<exists>a \<in> set (payload rel).
                       get_or_empty (name a) = filename d
                     \<and> get_or_empty (browser_download_url a) = url d)
                 \<and> occurs_in ''install_only.tar.gz'' (filename d)
                 \<and> classify (filename d) = (Some sys, platform d)
                 \<and> platform d \<noteq> []"
  have drop: "all_descriptors (\<lambda>sys v d. filename d \<noteq> get_or_empty (name a)) cat"
    if "all_descriptors ?P cat"
      and "\<not> occurs_in ''install_only.tar.gz'' (get_or_empty (name a))
               \<or> fst (classify (get_or_empty (name a))) = None
               \<or> snd (classify (get_or_empty (name a))) = []"
    for cat a
    using that unfolding all_descriptors_def by fastforce
  from assms obtain cat where cat: "fetch_python_versions w = (Some cat, w)"
    and good: "all_descriptors ?P cat"
  proof (cases rule: fetch_parsed)
    case no_tag
    then show ?thesis
      using that all_descriptors_initial by blast
  next
    case (scanned cat)
    let ?version = "get_or_empty (tag_name rel)"
    have tag: "tag_name rel = Some ?version"
      using scanned(1) by (cases "tag_name rel") (simp_all add: get_or_empty_def)
    have "all_descriptors ?P cat"
      using all_descriptors_initial scanned(2)
    proof (rule scan_assets_all)
      fix a sys info
      assume "a \<in> set (payload rel)"
        "occurs_in ''install_only.tar.gz'' (get_or_empty (name a))"
        "classify (get_or_empty (name a)) = (Some sys, info)" "info \<noteq> []"
      with tag show "?P sys ?version
          \<lparr>filename = get_or_empty (name a), platform = info,
           url = get_or_empty (browser_download_url a), sha256 = None\<rparr>"
        by auto
    qed
    with scanned(3) show ?thesis by (rule that)
  qed
  with drop show ?thesis by blast
qed

theorem catalog_is_a_filter_witness:
  "api online_world = Parsed sample_release
   \<and> fetch_python_versions online_world = (Some sample_catalog, online_world)
   \<and> all_descriptors
        (\<lambda>sys v d.
            tag_name sample_release = Some v
          \<and> (\<exists>a \<in> set (payload sample_release).
                get_or_empty (name a) = filename d
              \<and> get_or_empty (browser_download_url a) = url d)
          \<and> occurs_in ''install_only.tar.gz'' (filename d)
          \<and> classify (filename d) = (Some sys, platform d)
          \<and> platform d \<noteq> []) sample_catalog
   \<and> all_descriptors
        (\<lambda>sys v d. filename d \<noteq> ''cpython-3.12.1-x86_64-unknown-linux-gnu-pgo-full.tar.zst'')
        sample_catalog
   \<and> all_descriptors
        (\<lambda>sys v d. filename d \<noteq> ''cpython-3.12.1-riscv64-unknown-linux-gnu-install_only.tar.gz'')
        sample_catalog
   \<and> all_descriptors
        (\<lambda>sys v d. filename d \<noteq> ''cpython-3.12.1-x86_64-unknown-freebsd-install_only.tar.gz'')
        sample_catalog"
proof -
  have parsed: "api online_world = Parsed sample_release"
    by (simp add: online_world_def)
  have members:
    "\<lparr>name = Some ''cpython-3.12.1-x86_64-unknown-linux-gnu-pgo-full.tar.zst'',
      browser_download_url = Some ''http://x/full''\<rparr> \<in> set (payload sample_release)"
    "\<lparr>name = Some ''cpython-3.12.1-riscv64-unknown-linux-gnu-install_only.tar.gz'',
      browser_download_url = Some ''http://x/riscv''\<rparr> \<in> set (payload sample_release)"
    "\<lparr>name = Some ''cpython-3.12.1-x86_64-unknown-freebsd-install_only.tar.gz'',
      browser_download_url = Some ''http://x/bsd''\<rparr> \<in> set (payload sample_release)"
    by (simp_all add: payload_def sample_release_def)
  from catalog_is_a_filter [OF parsed] sample_fetch
  have good: "all_descriptors
        (\<lambda>sys v d.
            tag_name sample_release = Some v
          \<and> (\<exists>a \<in> set (payload sample_release).
                get_or_empty (name a) = filename d
              \<and> get_or_empty (browser_download_url a) = url d)
          \<and> occurs_in ''install_only.tar.gz'' (filename d)
          \<and> classify (filename d) = (Some sys, platform d)
          \<and> platform d \<noteq> []) sample_catalog"
    and drop: "\<And>a. a \<in> set (payload sample_release) \<Longrightarrow>
                 \<not> occurs_in ''install_only.tar.gz'' (get_or_empty (name a))
               \<or> fst (classify (get_or_empty (name a))) = None
               \<or> snd (classify (get_or_empty (name a))) = []
               \<Longrightarrow> all_descriptors (\<lambda>sys v d. filename d \<noteq> get_or_empty (name a))
                     sample_catalog"
    by auto
  show ?thesis
    using parsed sample_fetch good drop [OF members(1)] drop [OF members(2)] drop [OF members(3)]
    by (simp add: get_or_empty_def sample_classify sample_marker del: occurs_in.simps)
qed

text \<open>
  C6, as stated: an asset whose file name does not match the fixed suffix is excluded from
  every platform. The script tests whether the marker occurs anywhere in the name, not
  whether the name ends with it: the checksum file of an artifact does not end with
  \<^verbatim>\<open>install_only.tar.gz\<close>, and it is listed under Linux.
\<close>

theorem sidecar_file_is_listed:
  "\<not> suffix ''install_only.tar.gz''
        ''cpython-3.12.1-x86_64-unknown-linux-gnu-install_only.tar.gz.sha256''
   \<and> fetch_python_versions sidecar_world
       = (Some [(''Linux'',
                  [(''20240107'',
                    [\<lparr>filename =
                        ''cpython-3.12.1-x86_64-unknown-linux-gnu-install_only.tar.gz.sha256'',
                      platform = ''x86_64'', url = ''http://x/sum'', sha256 = None\<rparr>])]),
                (''macOS'', []), (''Windows'', [])],
          sidecar_world)"
  by (simp add: fetch_python_versions_def sidecar_world_def sidecar_release_def payload_def
      get_or_empty_def SYSTEMS_def sample_classify sample_marker add_descriptor_def
      Let_def suffix_def del: occurs_in.simps)


text \<open>
  C7: when the request fails or the body is not JSON, the catalog builder prints a
  diagnostic and returns \<^verbatim>\<open>None\<close>, and \<^verbatim>\<open>main\<close> prints its own diagnostic and exits
  with status 1, in an environment that differs from the initial one by the printed lines
  only: no transfer was attempted and no file or directory was touched. When the payload
  is parsed, the catalog returned has exactly the three platforms as keys, and a platform
  for which no asset of the payload qualifies is mapped to the empty version map.
\<close>

theorem catalog_covers_platforms_or_is_unavailable:
  "(api w = Net_failure \<or> api w = Malformed \<longrightarrow>
      (\<exists>e. fetch_python_versions w = (None, thread_safe_print (Fetch_error e) w)
          \<and> main a w
              = Inr (1, w\<lparr>console := console w
                         @ [Fetching (if arg_system a = ''all'' then SYSTEMS else [arg_system a]),
                            Fetch_error e, Fetch_failed]\<rparr>)))
   \<and> (\<forall>rel. api w = Parsed rel \<longrightarrow>
        (\<exists>cat. fetch_python_versions w = (Some cat, w)
           \<and> map fst cat = SYSTEMS
           \<and> (\<forall>sys \<in> set SYSTEMS.
                 (\<forall>a \<in> set (payload rel).
                     occurs_in ''install_only.tar.gz'' (get_or_empty (name a)) \<longrightarrow>
                     fst (classify (get_or_empty (name a))) = Some sys \<longrightarrow>
                     snd (classify (get_or_empty (name a))) = [])
                 \<longrightarrow> map_of cat sys = Some [])))"
proof (intro conjI impI allI)
  assume fail: "api w = Net_failure \<or> api w = Malformed"
  let ?sel = "if arg_system a = ''all'' then SYSTEMS else [arg_system a]"
  let ?w0 = "thread_safe_print (Fetching ?sel) w"
  define e where "e = (if api w = Net_failure then URLError else ValueError)"
  from fail have e: "fetch_python_versions w = (None, thread_safe_print (Fetch_error e) w)"
    unfolding e_def by (rule fetch_failed)
  from fail have e0: "fetch_python_versions ?w0 = (None, thread_safe_print (Fetch_error e) ?w0)"
    using fetch_failed [of ?w0] by (simp add: e_def)
  have "main a w = Inr (1, thread_safe_print Fetch_failed (thread_safe_print (Fetch_error e) ?w0))"
    using e0 by (rule main_unavailable) simp
  then have "main a w = Inr (1, w\<lparr>console := console w @ [Fetching ?sel, Fetch_error e, Fetch_failed]\<rparr>)"
    by (simp add: thread_safe_print_def)
  with e show "\<exists>e. fetch_python_versions w = (None, thread_safe_print (Fetch_error e) w)
          \<and> main a w = Inr (1, w\<lparr>console := console w @ [Fetching ?sel, Fetch_error e, Fetch_failed]\<rparr>)"
    by blast
next
  fix rel
  assume parsed: "api w = Parsed rel"
  let ?init = "map (\<lambda>sys. (sys, [])) SYSTEMS"
  let ?unmatched = "\<lambda>sys. \<forall>a \<in> set (payload rel).
                     occurs_in ''install_only.tar.gz'' (get_or_empty (name a)) \<longrightarrow>
                     fst (classify (get_or_empty (name a))) = Some sys \<longrightarrow>
                     snd (classify (get_or_empty (name a))) = []"
  from parsed show "\<exists>cat. fetch_python_versions w = (Some cat, w) \<and> map fst cat = SYSTEMS
           \<and> (\<forall>sys \<in> set SYSTEMS. ?unmatched sys \<longrightarrow> map_of cat sys = Some [])"
  proof (cases rule: fetch_parsed)
    case no_tag
    then show ?thesis
      by (simp add: initial_lookup comp_def)
  next
    case (scanned cat)
    have keys: "map fst cat = SYSTEMS"
      using scan_assets_keys [OF initial_keys, of "get_or_empty (tag_name rel)" "payload rel"]
        scanned(2) by simp
    have "map_of cat sys = Some []" if "sys \<in> set SYSTEMS" "?unmatched sys" for sys
    proof -
      have "map_of cat sys = map_of ?init sys"
        using scanned(2)
      proof (rule scan_assets_untouched)
        fix a info
        assume "a \<in> set (payload rel)"
          "occurs_in ''install_only.tar.gz'' (get_or_empty (name a))"
          "classify (get_or_empty (name a)) = (Some sys, info)"
        with that(2) show "info = []" by fastforce
      qed
      with that(1) show ?thesis by (simp add: initial_lookup)
    qed
    with keys scanned(3) show ?thesis by blast
  qed
qed

theorem catalog_covers_platforms_or_is_unavailable_witness:
  "api loose_world = Net_failure
   \<and> fetch_python_versions loose_world
       = (None, thread_safe_print (Fetch_error URLError) loose_world)
   \<and> main linux_args loose_world
       = Inr (1, loose_world\<lparr>console :=
                   [Fetching [''Linux''], Fetch_error URLError, Fetch_failed]\<rparr>)
   \<and> api online_world = Parsed sample_release
   \<and> fetch_python_versions online_world = (Some sample_catalog, online_world)
   \<and> map fst sample_catalog = SYSTEMS
   \<and> map_of sample_catalog ''macOS'' = Some []"
proof -
  have down: "api loose_world = Net_failure"
    by (simp add: loose_world_def)
  have up: "api online_world = Parsed sample_release"
    by (simp add: online_world_def)
  have e: "fetch_python_versions loose_world
             = (None, thread_safe_print (Fetch_error URLError) loose_world)"
    using down by (simp add: fetch_python_versions_def)
  from catalog_covers_platforms_or_is_unavailable [of loose_world linux_args] down e
  have "main linux_args loose_world
       = Inr (1, loose_world\<lparr>console := console loose_world @
                   [Fetching [''Linux''], Fetch_error URLError, Fetch_failed]\<rparr>)"
    by (auto simp: linux_args_def thread_safe_print_def loose_world_def)
  moreover have "console loose_world = []"
    by (simp add: loose_world_def)
  moreover have "map fst sample_catalog = SYSTEMS" "map_of sample_catalog ''macOS'' = Some []"
    by (simp_all add: sample_catalog_def SYSTEMS_def)
  ultimately show ?thesis
    using down up e sample_fetch by simp
qed

section \<open>What the planner computes\<close>

lemma path_exists_console [simp]:
  "path_exists (w\<lparr>console := c\<rparr>) p = path_exists w p"
  "path_exists (thread_safe_print l w) p = path_exists w p"
  by (simp_all add: path_exists_def)

lemma pending_console [simp]:
  "pending (w\<lparr>console := c\<rparr>) = pending w"
  "pending (thread_safe_print l w) = pending w"
  by (simp_all add: pending_def fun_eq_iff)

lemma mkdir_chain_eq:
  "mkdir_chain qs w
     = (if \<exists>q \<in> set qs. q \<notin> fs_dirs w \<and> fs_files w q \<noteq> None then Inl FileExistsError
        else Inr (w\<lparr>fs_dirs := fs_dirs w \<union> set qs\<rparr>))"
proof (induction qs arbitrary: w)
  case Nil
  show ?case by simp
next
  case (Cons q qs)
  show ?case
  proof (cases "q \<in> fs_dirs w")
    case True
    then have "insert q (fs_dirs w \<union> set qs) = fs_dirs w \<union> set qs" by blast
    with True show ?thesis by (simp add: Cons.IH)
  next
    case False
    show ?thesis
    proof (cases "fs_files w q")
      case Some
      with False show ?thesis by auto
    next
      case None
      have "(\<exists>q' \<in> set qs. q' \<notin> insert q (fs_dirs w) \<and> fs_files w q' \<noteq> None)
              \<longleftrightarrow> (\<exists>q' \<in> set qs. q' \<notin> fs_dirs w \<and> fs_files w q' \<noteq> None)"
        using None by (metis insert_iff)
      with False None show ?thesis by (simp add: Cons.IH)
    qed
  qed
qed

lemma makedirs_eq:
  "makedirs p w
     = (if obstructed w p then Inl FileExistsError
        else Inr (w\<lparr>fs_dirs := fs_dirs w \<union> set (ancestors p)\<rparr>))"
  by (simp add: makedirs_def mkdir_chain_eq obstructed_def)

lemma plan_files_eq:
  "plan_files (folder_of sys) items dl w
     = (dl @ filter (pending w) (map (artifact_of sys) items),
        w\<lparr>console := console w
             @ map (\<lambda>t. Skipped (display_name t))
                 (filter (\<lambda>t. \<not> pending w t) (map (artifact_of sys) items))\<rparr>)"
proof (induction items arbitrary: dl w)
  case Nil
  show ?case by simp
next
  case (Cons item items)
  show ?case
  proof (cases "pending w (artifact_of sys item)")
    case True
    then have "\<not> path_exists w (path_join (folder_of sys) (filename item))"
      by (simp add: pending_def destination_def artifact_of_def)
    with True show ?thesis
      by (simp add: Cons.IH artifact_of_def)
  next
    case False
    then have "path_exists w (path_join (folder_of sys) (filename item))"
      by (simp add: pending_def destination_def artifact_of_def)
    with False show ?thesis
      by (simp add: Cons.IH artifact_of_def display_name_def thread_safe_print_def)
  qed
qed

lemma pending_cong:
  assumes "fs_files w' = fs_files w" and "fs_dirs w' = fs_dirs w"
  shows "pending w' = pending w"
  using assms by (simp add: pending_def path_exists_def fun_eq_iff)

lemma with_dirs_frame [simp]:
  "fs_files (with_dirs sys w) = fs_files w"
  "fs_dirs (with_dirs sys w) = fs_dirs w \<union> set (ancestors (folder_of sys))"
  "remote (with_dirs sys w) = remote w"
  "undeletable (with_dirs sys w) = undeletable w"
  "api (with_dirs sys w) = api w"
  "retrieved (with_dirs sys w) = retrieved w"
  "console (with_dirs sys w) = console w"
  by (simp_all add: with_dirs_def)

lemma with_dirs_console:
  "with_dirs sys (w\<lparr>console := c\<rparr>) = (with_dirs sys w)\<lparr>console := c\<rparr>"
  by (simp add: with_dirs_def)

lemma with_dirs_idem [simp]: "with_dirs sys (with_dirs sys w) = with_dirs sys w"
  by (simp add: with_dirs_def)

lemma not_obstructed_with_dirs [simp]: "\<not> obstructed (with_dirs sys w) (folder_of sys)"
  by (simp add: obstructed_def)

lemma obstructed_console [simp]: "obstructed (w\<lparr>console := c\<rparr>) p = obstructed w p"
  by (simp add: obstructed_def)

lemma makedirs_folder:
  "makedirs (folder_of sys) w
     = (if obstructed w (folder_of sys) then Inl FileExistsError else Inr (with_dirs sys w))"
  by (simp add: makedirs_eq with_dirs_def)

text \<open>One version: the directory is made, the manifest and the artifacts are checked in
  the environment that has the directory.\<close>

lemma plan_versions_Cons:
  "plan_versions sys (entry # rest) sha dl w
     = (if obstructed w (folder_of sys) then Inl FileExistsError
        else plan_versions sys rest
               (sha @ filter (pending (with_dirs sys w)) [manifest_of sys (fst entry)])
               (dl @ filter (pending (with_dirs sys w)) (map (artifact_of sys) (snd entry)))
               ((with_dirs sys w)\<lparr>console := console w
                   @ map (\<lambda>t. Skipped (display_name t))
                       (filter (\<lambda>t. \<not> pending (with_dirs sys w) t)
                          (version_candidates sys entry))\<rparr>))"
proof (cases entry)
  case (Pair version items)
  let ?w1 = "with_dirs sys w"
  show ?thesis
  proof (cases "obstructed w (folder_of sys)")
    case True
    then show ?thesis by (simp add: Pair makedirs_folder)
  next
    case False
    show ?thesis
    proof (cases "pending ?w1 (manifest_of sys version)")
      case True
      then have "\<not> path_exists ?w1 (path_join (folder_of sys) (sha_name version))"
        by (simp add: pending_def destination_def manifest_of_def)
      with True False show ?thesis
        by (simp add: Pair makedirs_folder plan_files_eq version_candidates_def manifest_of_def)
    next
      case skip: False
      then have "path_exists ?w1 (path_join (folder_of sys) (sha_name version))"
        by (simp add: pending_def destination_def manifest_of_def)
      with skip False show ?thesis
        by (simp add: Pair makedirs_folder plan_files_eq version_candidates_def manifest_of_def
            display_name_def thread_safe_print_def)
    qed
  qed
qed

lemma plan_versions_eq:
  "plan_versions sys vm sha dl w
     = (if vm = [] then Inr (sha, dl, w)
        else if obstructed w (folder_of sys) then Inl FileExistsError
        else Inr (sha @ sha_new sys vm (with_dirs sys w),
                  dl @ dl_new sys vm (with_dirs sys w),
                  (with_dirs sys w)\<lparr>console := console w @ notices sys vm (with_dirs sys w)\<rparr>))"
proof (induction vm arbitrary: sha dl w)
  case Nil
  show ?case by simp
next
  case (Cons entry rest)
  let ?w1 = "with_dirs sys w"
  show ?case
  proof (cases "obstructed w (folder_of sys)")
    case True
    then show ?thesis by (simp add: plan_versions_Cons)
  next
    case False
    let ?c = "console w @ map (\<lambda>t. Skipped (display_name t))
                       (filter (\<lambda>t. \<not> pending ?w1 t) (version_candidates sys entry))"
    let ?w3 = "?w1\<lparr>console := ?c\<rparr>"
    have w3: "with_dirs sys ?w3 = ?w3"
      by (simp add: with_dirs_console)
    have free: "\<not> obstructed ?w3 (folder_of sys)"
      by simp
    show ?thesis
    proof (cases "rest = []")
      case True
      with False show ?thesis
        by (simp add: plan_versions_Cons sha_new_def dl_new_def notices_def)
    next
      case nonempty: False
      with False show ?thesis
        unfolding plan_versions_Cons Cons.IH w3
        by (simp add: sha_new_def dl_new_def notices_def)
    qed
  qed
qed

lemma plan_systems_Cons:
  "plan_systems vd (sys # rest) sha dl w
     = (case map_of vd sys of
          None \<Rightarrow> plan_systems vd rest sha dl w
        | Some vm \<Rightarrow>
            if vm = [] then plan_systems vd rest sha dl w
            else if obstructed w (folder_of sys) then Inl FileExistsError
            else plan_systems vd rest
                   (sha @ sha_new sys vm (with_dirs sys w))
                   (dl @ dl_new sys vm (with_dirs sys w))
                   ((with_dirs sys w)\<lparr>console := console w @ notices sys vm (with_dirs sys w)\<rparr>))"
  by (simp add: plan_versions_eq split: option.split)

lemma planned_step_frame [simp]:
  "fs_files (planned_step sys vm w) = fs_files w"
  "fs_dirs (planned_step sys vm w) = fs_dirs w \<union> set (ancestors (folder_of sys))"
  "remote (planned_step sys vm w) = remote w"
  "undeletable (planned_step sys vm w) = undeletable w"
  "api (planned_step sys vm w) = api w"
  "retrieved (planned_step sys vm w) = retrieved w"
  "console (planned_step sys vm w) = console w @ notices sys vm (with_dirs sys w)"
  by (simp_all add: planned_step_def)

lemma plan_systems_cases:
  assumes "plan_systems vd (sys # rest) sha dl w = Inr r"
  obtains (skip) "sys \<notin> set (visited vd [sys])" "plan_systems vd rest sha dl w = Inr r"
  | (visit) vm where "map_of vd sys = Some vm" "vm \<noteq> []" "\<not> obstructed w (folder_of sys)"
      "plan_systems vd rest (sha @ sha_new sys vm (with_dirs sys w))
         (dl @ dl_new sys vm (with_dirs sys w)) (planned_step sys vm w) = Inr r"
proof (cases "map_of vd sys")
  case None
  with assms show ?thesis
    by (intro skip) (simp_all add: visited_def)
next
  case (Some vm)
  show ?thesis
  proof (cases "vm = []")
    case True
    with Some assms show ?thesis
      by (intro skip) (simp_all add: visited_def)
  next
    case False
    with Some assms have free: "\<not> obstructed w (folder_of sys)"
      by (auto simp: plan_systems_Cons simp del: plan_systems.simps split: if_splits)
    with Some False assms show ?thesis
      by (intro visit [of vm]) (simp_all add: plan_systems_Cons planned_step_def
          del: plan_systems.simps)
  qed
qed

lemma visited_Cons:
  "visited vd (sys # rest) = visited vd [sys] @ visited vd rest"
  by (simp add: visited_def)

lemma visited_single:
  "visited vd [sys] = (if sys \<in> set (visited vd [sys]) then [sys] else [])"
  by (simp add: visited_def)

text \<open>Planning touches the directories and the console only, and both grow.\<close>

lemma plan_systems_frame:
  assumes "plan_systems vd systems sha dl w = Inr (sha', dl', w')"
  shows "fs_files w' = fs_files w \<and> remote w' = remote w \<and> undeletable w' = undeletable w
       \<and> api w' = api w \<and> retrieved w' = retrieved w
       \<and> fs_dirs w' = fs_dirs w \<union> (\<Union>sys \<in> set (visited vd systems). set (ancestors (folder_of sys)))
       \<and> prefix (console w) (console w') \<and> prefix sha sha' \<and> prefix dl dl'"
  using assms
proof (induction systems arbitrary: sha dl w)
  case Nil
  then show ?case by (simp add: visited_def)
next
  case (Cons sys rest)
  from Cons.prems show ?case
  proof (cases rule: plan_systems_cases)
    case skip
    then have "visited vd (sys # rest) = visited vd rest"
      by (simp add: visited_def split: if_splits)
    with Cons.IH [OF skip(2)] show ?thesis by simp
  next
    case (visit vm)
    then have "visited vd (sys # rest) = sys # visited vd rest"
      by (simp add: visited_def)
    with Cons.IH [OF visit(4)] show ?thesis
      by (auto dest: append_prefixD)
  qed
qed

lemma manifest_candidates_Cons:
  "manifest_candidates vd (sys # rest)
     = (case map_of vd sys of None \<Rightarrow> []
        | Some vm \<Rightarrow> map (\<lambda>entry. manifest_of sys (fst entry)) vm)
       @ manifest_candidates vd rest"
  by (simp add: manifest_candidates_def case_prod_unfold split: option.split)

lemma artifact_candidates_Cons:
  "artifact_candidates vd (sys # rest)
     = (case map_of vd sys of None \<Rightarrow> []
        | Some vm \<Rightarrow> concat (map (\<lambda>entry. map (artifact_of sys) (snd entry)) vm))
       @ artifact_candidates vd rest"
  by (simp add: artifact_candidates_def case_prod_unfold split: option.split)

lemma set_version_candidates:
  "set (concat (map (version_candidates sys) vm))
     = set (map (\<lambda>entry. manifest_of sys (fst entry)) vm)
       \<union> set (concat (map (\<lambda>entry. map (artifact_of sys) (snd entry)) vm))"
  by (auto simp: version_candidates_def)

lemma pending_antimono:
  assumes "pending w' t" and "fs_files w' = fs_files w" and "fs_dirs w \<subseteq> fs_dirs w'"
  shows "pending w t"
  using assms by (auto simp: pending_def path_exists_def)

lemma pending_with_dirs: "pending (with_dirs sys w) t \<Longrightarrow> pending w t"
  by (erule pending_antimono) simp_all

lemma pending_planned_step [simp]: "pending (planned_step sys vm w) = pending (with_dirs sys w)"
  by (rule pending_cong) simp_all

lemma obstructed_antimono:
  assumes "obstructed w' p" and "fs_files w' = fs_files w" and "fs_dirs w \<subseteq> fs_dirs w'"
  shows "obstructed w p"
  using assms by (auto simp: obstructed_def)

text \<open>The tasks the planner adds are candidates that were pending in the initial
  environment.\<close>

lemma plan_systems_tasks:
  assumes "plan_systems vd systems sha dl w = Inr (sha', dl', w')"
  shows "\<exists>sn dn. sha' = sha @ sn \<and> dl' = dl @ dn
           \<and> set sn \<subseteq> set (manifest_candidates vd systems)
           \<and> set dn \<subseteq> set (artifact_candidates vd systems)
           \<and> (\<forall>t \<in> set sn \<union> set dn. pending w t)"
  using assms
proof (induction systems arbitrary: sha dl w)
  case Nil
  then show ?case by simp
next
  case (Cons sys rest)
  from Cons.prems show ?case
  proof (cases rule: plan_systems_cases)
    case skip
    from Cons.IH [OF skip(2)] show ?thesis
      by (fastforce simp: manifest_candidates_Cons artifact_candidates_Cons)
  next
    case (visit vm)
    let ?w1 = "with_dirs sys w"
    from Cons.IH [OF visit(4)] obtain sn dn where
      sn: "sha' = (sha @ sha_new sys vm ?w1) @ sn" and dn: "dl' = (dl @ dl_new sys vm ?w1) @ dn"
      and sub: "set sn \<subseteq> set (manifest_candidates vd rest)"
        "set dn \<subseteq> set (artifact_candidates vd rest)"
      and pend: "\<forall>t \<in> set sn \<union> set dn. pending (planned_step sys vm w) t"
      by blast
    have 1: "set (sha_new sys vm ?w1 @ sn) \<subseteq> set (manifest_candidates vd (sys # rest))"
      using sub(1) visit(1) by (auto simp: manifest_candidates_Cons sha_new_def)
    have 2: "set (dl_new sys vm ?w1 @ dn) \<subseteq> set (artifact_candidates vd (sys # rest))"
      using sub(2) visit(1) by (auto simp: artifact_candidates_Cons dl_new_def)
    have 3: "\<forall>t \<in> set (sha_new sys vm ?w1 @ sn) \<union> set (dl_new sys vm ?w1 @ dn). pending w t"
      using pend by (auto simp: sha_new_def dl_new_def intro: pending_with_dirs)
    from sn dn 1 2 3 show ?thesis
      by (intro exI [of _ "sha_new sys vm ?w1 @ sn"] exI [of _ "dl_new sys vm ?w1 @ dn"]) simp
  qed
qed

text \<open>Every candidate is either among the tasks or not pending after planning, and a
  candidate whose destination existed from the start was announced as skipped.\<close>

lemma plan_systems_coverage:
  assumes "plan_systems vd systems sha dl w = Inr (sha', dl', w')"
  shows "(\<forall>t \<in> set (manifest_candidates vd systems). t \<in> set sha' \<or> \<not> pending w' t)
       \<and> (\<forall>t \<in> set (artifact_candidates vd systems). t \<in> set dl' \<or> \<not> pending w' t)
       \<and> (\<forall>t \<in> set (manifest_candidates vd systems) \<union> set (artifact_candidates vd systems).
             \<not> pending w t \<longrightarrow> Skipped (display_name t) \<in> set (console w'))"
  using assms
proof (induction systems arbitrary: sha dl w)
  case Nil
  then show ?case by (simp add: manifest_candidates_def artifact_candidates_def)
next
  case (Cons sys rest)
  from Cons.prems show ?case
  proof (cases rule: plan_systems_cases)
    case skip
    then have "manifest_candidates vd (sys # rest) = manifest_candidates vd rest"
      "artifact_candidates vd (sys # rest) = artifact_candidates vd rest"
      by (auto simp: manifest_candidates_Cons artifact_candidates_Cons visited_def
          split: option.splits if_splits)
    with Cons.IH [OF skip(2)] show ?thesis by simp
  next
    case (visit vm)
    let ?w1 = "with_dirs sys w"
    let ?ms = "map (\<lambda>entry. manifest_of sys (fst entry)) vm"
    let ?as = "concat (map (\<lambda>entry. map (artifact_of sys) (snd entry)) vm)"
    note IH = Cons.IH [OF visit(4)]
    from plan_systems_frame [OF visit(4)]
    have files: "fs_files w' = fs_files w" and dirs: "fs_dirs ?w1 \<subseteq> fs_dirs w'"
      and con: "prefix (console w @ notices sys vm ?w1) (console w')"
      and sha: "prefix (sha @ sha_new sys vm ?w1) sha'"
      and dl: "prefix (dl @ dl_new sys vm ?w1) dl'"
      by auto
    have later: "\<not> pending w' t" if "\<not> pending ?w1 t" for t
      using that files dirs by (auto simp: pending_def path_exists_def)
    have noted: "Skipped (display_name t) \<in> set (console w')"
      if "t \<in> set ?ms \<union> set ?as" "\<not> pending ?w1 t" for t
    proof -
      from that have "Skipped (display_name t) \<in> set (notices sys vm ?w1)"
        unfolding notices_def set_map set_filter set_version_candidates by blast
      with set_mono_prefix [OF con] show ?thesis
        by auto
    qed
    have m: "t \<in> set sha' \<or> \<not> pending w' t" if "t \<in> set ?ms" for t
    proof (cases "pending ?w1 t")
      case True
      with that have "t \<in> set (sha @ sha_new sys vm ?w1)"
        by (simp add: sha_new_def)
      with set_mono_prefix [OF sha] show ?thesis by blast
    next
      case False
      then show ?thesis by (simp add: later)
    qed
    have a: "t \<in> set dl' \<or> \<not> pending w' t" if "t \<in> set ?as" for t
    proof (cases "pending ?w1 t")
      case True
      with that have "t \<in> set (dl @ dl_new sys vm ?w1)"
        by (simp add: dl_new_def)
      with set_mono_prefix [OF dl] show ?thesis by blast
    next
      case False
      then show ?thesis by (simp add: later)
    qed
    have n: "Skipped (display_name t) \<in> set (console w')"
      if "t \<in> set ?ms \<union> set ?as" "\<not> pending w t" for t
      using that pending_with_dirs [of sys w t] by (intro noted) auto
    have n': "Skipped (display_name t) \<in> set (console w')"
      if "t \<in> set (manifest_candidates vd rest) \<union> set (artifact_candidates vd rest)"
        "\<not> pending w t" for t
    proof -
      from that(2) have "\<not> pending (planned_step sys vm w) t"
        using pending_with_dirs [of sys w t] by auto
      with IH that(1) show ?thesis by blast
    qed
    have mset: "set (manifest_candidates vd (sys # rest))
                  = set ?ms \<union> set (manifest_candidates vd rest)"
      and aset: "set (artifact_candidates vd (sys # rest))
                  = set ?as \<union> set (artifact_candidates vd rest)"
      using visit(1) by (simp_all add: manifest_candidates_Cons artifact_candidates_Cons)
    from IH m have "\<forall>t \<in> set (manifest_candidates vd (sys # rest)).
                      t \<in> set sha' \<or> \<not> pending w' t"
      unfolding mset by blast
    moreover from IH a have "\<forall>t \<in> set (artifact_candidates vd (sys # rest)).
                      t \<in> set dl' \<or> \<not> pending w' t"
      unfolding aset by blast
    moreover from n n' have "\<forall>t \<in> set (manifest_candidates vd (sys # rest))
                \<union> set (artifact_candidates vd (sys # rest)).
             \<not> pending w t \<longrightarrow> Skipped (display_name t) \<in> set (console w')"
      unfolding mset aset by blast
    ultimately show ?thesis by blast
  qed
qed

lemma visited_iff:
  "sys \<in> set (visited vd [sys]) \<longleftrightarrow> (\<exists>vm. map_of vd sys = Some vm \<and> vm \<noteq> [])"
  by (cases "map_of vd sys") (simp_all add: visited_def)

lemma not_visited:
  assumes "sys \<notin> set (visited vd [sys])"
  shows "plan_systems vd (sys # rest) sha dl w = plan_systems vd rest sha dl w"
    and "manifest_candidates vd (sys # rest) = manifest_candidates vd rest"
    and "artifact_candidates vd (sys # rest) = artifact_candidates vd rest"
    and "visited vd (sys # rest) = visited vd rest"
proof -
  from assms have "map_of vd sys = None \<or> map_of vd sys = Some []"
    unfolding visited_iff by (cases "map_of vd sys") simp_all
  then show "plan_systems vd (sys # rest) sha dl w = plan_systems vd rest sha dl w"
    and "manifest_candidates vd (sys # rest) = manifest_candidates vd rest"
    and "artifact_candidates vd (sys # rest) = artifact_candidates vd rest"
    and "visited vd (sys # rest) = visited vd rest"
    by (auto simp: manifest_candidates_Cons artifact_candidates_Cons visited_def)
qed

lemma plan_systems_total:
  assumes "\<forall>sys \<in> set (visited vd systems). \<not> obstructed w (folder_of sys)"
  shows "\<exists>sha' dl' w'. plan_systems vd systems sha dl w = Inr (sha', dl', w')"
  using assms
proof (induction systems arbitrary: sha dl w)
  case Nil
  show ?case by simp
next
  case (Cons sys rest)
  show ?case
  proof (cases "sys \<in> set (visited vd [sys])")
    case False
    then have same: "plan_systems vd (sys # rest) sha dl w = plan_systems vd rest sha dl w"
      by (rule not_visited)
    from Cons.prems have "\<forall>s \<in> set (visited vd rest). \<not> obstructed w (folder_of s)"
      unfolding not_visited(4) [OF False] .
    from Cons.IH [OF this] same show ?thesis by simp
  next
    case True
    then obtain vm where vm: "map_of vd sys = Some vm" "vm \<noteq> []"
      unfolding visited_iff by blast
    then have vis: "visited vd (sys # rest) = sys # visited vd rest"
      by (simp add: visited_def)
    with Cons.prems have free: "\<not> obstructed w (folder_of sys)"
      and rest: "\<forall>s \<in> set (visited vd rest). \<not> obstructed w (folder_of s)"
      by simp_all
    have "\<forall>s \<in> set (visited vd rest). \<not> obstructed (planned_step sys vm w) (folder_of s)"
      using rest by (auto dest: obstructed_antimono [where w = w])
    from Cons.IH [OF this] vm free show ?thesis
      by (simp add: plan_systems_Cons planned_step_def del: plan_systems.simps)
  qed
qed

lemma plan_systems_nothing_visited:
  assumes "visited vd systems = []"
  shows "plan_systems vd systems sha dl w = Inr (sha, dl, w)"
  using assms
proof (induction systems)
  case Nil
  show ?case by simp
next
  case (Cons sys rest)
  then have no: "sys \<notin> set (visited vd [sys])" and "visited vd rest = []"
    by (simp_all add: visited_def split: if_splits)
  then show ?case
    using Cons.IH unfolding not_visited(1) [OF no] by blast
qed

text \<open>When the directories are there and no candidate is pending, planning adds no task
  and changes nothing but the console.\<close>

lemma plan_systems_settled:
  assumes "\<forall>sys \<in> set (visited vd systems). set (ancestors (folder_of sys)) \<subseteq> fs_dirs w"
    and "\<forall>t \<in> set (manifest_candidates vd systems) \<union> set (artifact_candidates vd systems).
           \<not> pending w t"
  shows "\<exists>ls. plan_systems vd systems sha dl w = Inr (sha, dl, w\<lparr>console := console w @ ls\<rparr>)"
  using assms
proof (induction systems arbitrary: w)
  case Nil
  have "w = w\<lparr>console := console w @ []\<rparr>" by simp
  then show ?case by (metis plan_systems.simps(1))
next
  case (Cons sys rest)
  show ?case
  proof (cases "sys \<in> set (visited vd [sys])")
    case False
    then have same: "plan_systems vd (sys # rest) sha dl w = plan_systems vd rest sha dl w"
      and cands: "manifest_candidates vd (sys # rest) = manifest_candidates vd rest"
        "artifact_candidates vd (sys # rest) = artifact_candidates vd rest"
      and vis: "visited vd (sys # rest) = visited vd rest"
      by (rule not_visited)+
    from Cons.IH [of w] Cons.prems show ?thesis
      unfolding same cands vis by blast
  next
    case True
    then obtain vm where vm: "map_of vd sys = Some vm" "vm \<noteq> []"
      unfolding visited_iff by blast
    then have vis: "visited vd (sys # rest) = sys # visited vd rest"
      by (simp add: visited_def)
    let ?ms = "map (\<lambda>entry. manifest_of sys (fst entry)) vm"
    let ?as = "concat (map (\<lambda>entry. map (artifact_of sys) (snd entry)) vm)"
    have mset: "set (manifest_candidates vd (sys # rest))
                  = set ?ms \<union> set (manifest_candidates vd rest)"
      and aset: "set (artifact_candidates vd (sys # rest))
                  = set ?as \<union> set (artifact_candidates vd rest)"
      using vm(1) by (simp_all add: manifest_candidates_Cons artifact_candidates_Cons)
    from Cons.prems(1) vis have here: "set (ancestors (folder_of sys)) \<subseteq> fs_dirs w"
      and there: "\<forall>s \<in> set (visited vd rest). set (ancestors (folder_of s)) \<subseteq> fs_dirs w"
      by simp_all
    from here have "fs_dirs w \<union> set (ancestors (folder_of sys)) = fs_dirs w"
      by blast
    then have w1: "with_dirs sys w = w"
      by (simp add: with_dirs_def)
    from here have free: "\<not> obstructed w (folder_of sys)"
      by (auto simp: obstructed_def)
    from Cons.prems(2) have none: "\<forall>t \<in> set ?ms \<union> set ?as. \<not> pending w t"
      and later: "\<forall>t \<in> set (manifest_candidates vd rest) \<union> set (artifact_candidates vd rest).
                    \<not> pending w t"
      unfolding mset aset by blast+
    from none have "filter (pending w) ?ms = []" "filter (pending w) ?as = []"
      by (simp_all add: filter_empty_conv)
    then have new: "sha_new sys vm w = []" "dl_new sys vm w = []"
      by (simp_all add: sha_new_def dl_new_def)
    let ?w2 = "w\<lparr>console := console w @ notices sys vm w\<rparr>"
    have step: "plan_systems vd (sys # rest) sha dl w = plan_systems vd rest sha dl ?w2"
      using vm free by (simp add: plan_systems_Cons w1 new del: plan_systems.simps)
    have "\<forall>s \<in> set (visited vd rest). set (ancestors (folder_of s)) \<subseteq> fs_dirs ?w2"
      using there by simp
    moreover have "\<forall>t \<in> set (manifest_candidates vd rest) \<union> set (artifact_candidates vd rest).
                    \<not> pending ?w2 t"
      using later by simp
    ultimately obtain ls where
      "plan_systems vd rest sha dl ?w2 = Inr (sha, dl, ?w2\<lparr>console := console ?w2 @ ls\<rparr>)"
      using Cons.IH [of ?w2] by blast
    then have "plan_systems vd (sys # rest) sha dl w
                 = Inr (sha, dl, w\<lparr>console := console w @ (notices sys vm w @ ls)\<rparr>)"
      unfolding step by simp
    then show ?thesis by blast
  qed
qed

section \<open>The directories\<close>

lemma print_catalog_frame [simp]:
  "fs_files (print_catalog vd sel w) = fs_files w"
  "fs_dirs (print_catalog vd sel w) = fs_dirs w"
  "remote (print_catalog vd sel w) = remote w"
  "undeletable (print_catalog vd sel w) = undeletable w"
  "api (print_catalog vd sel w) = api w"
  "retrieved (print_catalog vd sel w) = retrieved w"
  by (simp_all add: print_catalog_def Let_def)

lemma print_catalog_console:
  "\<exists>ls. console (print_catalog vd sel w) = console w @ ls"
  by (simp add: print_catalog_def Let_def)

lemma print_stats_frame_all:
  "fs_files (print_stats vd sel w) = fs_files w
   \<and> fs_dirs (print_stats vd sel w) = fs_dirs w
   \<and> remote (print_stats vd sel w) = remote w
   \<and> undeletable (print_stats vd sel w) = undeletable w
   \<and> api (print_stats vd sel w) = api w
   \<and> retrieved (print_stats vd sel w) = retrieved w
   \<and> prefix (console w) (console (print_stats vd sel w))"
proof (induction sel arbitrary: w)
  case Nil
  show ?case by simp
next
  case (Cons sys sel)
  show ?case
  proof (cases "map_of vd sys")
    case None
    with Cons.IH [of w] show ?thesis by simp
  next
    case (Some vm)
    with Cons.IH [of "thread_safe_print (Stats sys (sum_list (map (\<lambda>(v, items). length items) vm))) w"]
    show ?thesis by (auto dest: append_prefixD)
  qed
qed

lemma print_stats_frame [simp]:
  "fs_files (print_stats vd sel w) = fs_files w"
  "fs_dirs (print_stats vd sel w) = fs_dirs w"
  "remote (print_stats vd sel w) = remote w"
  "undeletable (print_stats vd sel w) = undeletable w"
  "api (print_stats vd sel w) = api w"
  "retrieved (print_stats vd sel w) = retrieved w"
  using print_stats_frame_all [of vd sel w] by simp_all

lemma print_stats_console: "prefix (console w) (console (print_stats vd sel w))"
  using print_stats_frame_all [of vd sel w] by simp

text \<open>The directory of a platform is the last of the directories made for it.\<close>

lemma folder_in_ancestors: "folder_of sys \<in> set (ancestors (folder_of sys))"
proof -
  have "folder_of sys \<noteq> [] \<and> last (folder_of sys) \<noteq> sep"
    by (simp add: folder_of_def path_join3_def path_join_def [of _ "''Python''"] sep_def)
  then show ?thesis
    by (simp add: ancestors_def in_set_prefixes)
qed

lemma download_files_eq:
  assumes "plan_systems vd systems [] [] w = Inr (sha, dl, w1)"
  shows "download_files vd systems W w
           = (if sha = [] \<and> dl = [] then Inr (thread_safe_print Nothing_to_download w1)
              else run_pool W sha dl
                     (thread_safe_print (Preparing (length sha + length dl) W) w1))"
  using assms by (simp add: download_files_def Let_def)

lemma download_files_dirs:
  assumes "plan_systems vd systems [] [] w = Inr (sha, dl, w1)"
    and "download_files vd systems W w = Inr w'"
  shows "fs_dirs w' = fs_dirs w1"
  using assms(2) unfolding download_files_eq [OF assms(1)] run_pool_eq
  by (auto split: if_splits)

text \<open>
  C10: for every selected platform that is in the catalog and has at least one version,
  the directory of the platform (the base directory, the platform, \<^verbatim>\<open>Python\<close>) exists once
  planning has returned, whether tasks were planned or every candidate was skipped; when
  no task was planned the run ends with the notice that nothing is to be downloaded, in
  the environment that has the directories, and no later step of a run removes a
  directory. Planning returns whenever no regular file stands where a directory has to
  be made.
\<close>

theorem planning_makes_directories:
  "(\<forall>sha dl w1. plan_systems vd systems [] [] w = Inr (sha, dl, w1) \<longrightarrow>
       (\<forall>sys \<in> set (visited vd systems). folder_of sys \<in> fs_dirs w1)
     \<and> (sha = [] \<and> dl = [] \<longrightarrow>
          download_files vd systems W w = Inr (thread_safe_print Nothing_to_download w1))
     \<and> (\<forall>w'. download_files vd systems W w = Inr w' \<longrightarrow> fs_dirs w' = fs_dirs w1))
   \<and> ((\<forall>sys \<in> set (visited vd systems). \<not> obstructed w (folder_of sys)) \<longrightarrow>
        (\<exists>sha dl w1. plan_systems vd systems [] [] w = Inr (sha, dl, w1)))"
proof (intro conjI allI impI)
  fix sha dl w1
  assume plan: "plan_systems vd systems [] [] w = Inr (sha, dl, w1)"
  from plan_systems_frame [OF plan]
  have "fs_dirs w1 = fs_dirs w \<union> (\<Union>sys \<in> set (visited vd systems). set (ancestors (folder_of sys)))"
    by simp
  then show "\<forall>sys \<in> set (visited vd systems). folder_of sys \<in> fs_dirs w1"
    using folder_in_ancestors by blast
  show "download_files vd systems W w = Inr (thread_safe_print Nothing_to_download w1)"
    if "sha = [] \<and> dl = []"
    using that by (simp add: download_files_eq [OF plan])
  show "fs_dirs w' = fs_dirs w1" if "download_files vd systems W w = Inr w'" for w'
    using plan that by (rule download_files_dirs)
next
  assume "\<forall>sys \<in> set (visited vd systems). \<not> obstructed w (folder_of sys)"
  then show "\<exists>sha dl w1. plan_systems vd systems [] [] w = Inr (sha, dl, w1)"
    by (rule plan_systems_total)
qed

lemma linux_folder: "folder_of ''Linux'' = ''downloads/Linux/Python''"
  by (simp add: folder_of_def path_join3_def path_join_def BASE_DIR_def sep_def)

lemma linux_ancestors: "set (ancestors ''downloads/Linux/Python'') = linux_dirs"
  by (simp add: ancestors_def sep_def linux_dirs_def)

lemma demo_visited: "visited demo_catalog [''Linux''] = [''Linux'']"
  by (simp add: visited_def demo_catalog_def)

lemma demo_candidates:
  "manifest_candidates demo_catalog [''Linux''] = [manifest_task]"
  "artifact_candidates demo_catalog [''Linux''] = [artifact_task]"
  by (simp_all add: manifest_candidates_def artifact_candidates_def demo_catalog_def
      manifest_of_def artifact_of_def manifest_task_def artifact_task_def linux_folder
      sha_name_def path_join_def sep_def)

theorem planning_makes_directories_witness:
  "visited demo_catalog [''Linux''] = [''Linux'']
   \<and> folder_of ''Linux'' = ''downloads/Linux/Python''
   \<and> \<not> obstructed fresh_world (folder_of ''Linux'')
   \<and> ''downloads/Linux/Python'' \<notin> fs_dirs fresh_world
   \<and> (\<exists>sha dl w1. plan_systems demo_catalog [''Linux''] [] [] fresh_world = Inr (sha, dl, w1)
         \<and> ''downloads/Linux/Python'' \<in> fs_dirs w1)
   \<and> (\<exists>w1. plan_systems demo_catalog [''Linux''] [] [] complete_world = Inr ([], [], w1)
         \<and> download_files demo_catalog [''Linux''] 3 complete_world
              = Inr (thread_safe_print Nothing_to_download w1)
         \<and> ''downloads/Linux/Python'' \<in> fs_dirs (thread_safe_print Nothing_to_download w1))"
proof -
  have free: "\<not> obstructed fresh_world (folder_of ''Linux'')"
    by (simp add: obstructed_def fresh_world_def no_files_def)
  have absent: "''downloads/Linux/Python'' \<notin> fs_dirs fresh_world"
    by (simp add: fresh_world_def)
  have made: "''downloads/Linux/Python'' \<in> fs_dirs w1"
    and idle: "sha = [] \<and> dl = [] \<longrightarrow>
          download_files demo_catalog [''Linux''] 3 w
            = Inr (thread_safe_print Nothing_to_download w1)"
    if "plan_systems demo_catalog [''Linux''] [] [] w = Inr (sha, dl, w1)" for w sha dl w1
    using planning_makes_directories [of demo_catalog "[''Linux'']" w 3] that
    unfolding demo_visited by (simp_all add: linux_folder del: plan_systems.simps)
  have "\<exists>sha dl w1. plan_systems demo_catalog [''Linux''] [] [] fresh_world = Inr (sha, dl, w1)"
    using planning_makes_directories [of demo_catalog "[''Linux'']" fresh_world 3] free
    unfolding demo_visited by (simp del: plan_systems.simps)
  then have first: "\<exists>sha dl w1. plan_systems demo_catalog [''Linux''] [] [] fresh_world
                       = Inr (sha, dl, w1) \<and> ''downloads/Linux/Python'' \<in> fs_dirs w1"
    using made by blast
  have dirs: "\<forall>sys \<in> set (visited demo_catalog [''Linux'']).
                set (ancestors (folder_of sys)) \<subseteq> fs_dirs complete_world"
    unfolding demo_visited by (simp add: linux_folder linux_ancestors complete_world_def)
  have present: "\<forall>t \<in> set (manifest_candidates demo_catalog [''Linux''])
                       \<union> set (artifact_candidates demo_catalog [''Linux'']).
                   \<not> pending complete_world t"
    unfolding demo_candidates
    by (simp add: pending_def path_exists_def destination_def
        manifest_task_def artifact_task_def complete_world_def)
  from plan_systems_settled [OF dirs present, of "[]" "[]"] obtain w2 where
    plan2: "plan_systems demo_catalog [''Linux''] [] [] complete_world = Inr ([], [], w2)"
    by blast
  have "download_files demo_catalog [''Linux''] 3 complete_world
          = Inr (thread_safe_print Nothing_to_download w2)"
    using idle [OF plan2] by simp
  moreover have "''downloads/Linux/Python'' \<in> fs_dirs (thread_safe_print Nothing_to_download w2)"
    using made [OF plan2] by simp
  ultimately have second: "\<exists>w1. plan_systems demo_catalog [''Linux''] [] [] complete_world = Inr ([], [], w1)
         \<and> download_files demo_catalog [''Linux''] 3 complete_world
              = Inr (thread_safe_print Nothing_to_download w1)
         \<and> ''downloads/Linux/Python'' \<in> fs_dirs (thread_safe_print Nothing_to_download w1)"
    using plan2 by blast
  from demo_visited linux_folder free absent first second show ?thesis
    by blast
qed

section \<open>A release without a tag\<close>

lemma fetch_only_api:
  assumes "api w' = api w"
  shows "fst (fetch_python_versions w') = fst (fetch_python_versions w)"
  using assms by (simp add: fetch_python_versions_def Let_def split: api_reply.split sum.split)

lemma all_empty_not_visited: "visited (map (\<lambda>sys. (sys, [])) SYSTEMS) systems = []"
  by (simp add: visited_def initial_lookup filter_empty_conv)

lemma main_parsed:
  assumes "fetch_python_versions (thread_safe_print (Fetching sel) w) = (Some vd, w1)"
    and "vd \<noteq> []" and "sel = (if arg_system a = ''all'' then SYSTEMS else [arg_system a])"
  shows "main a w
           = (case download_files vd sel (arg_workers a) (print_catalog vd sel w1) of
                Inl e \<Rightarrow> Inl e
              | Inr w3 \<Rightarrow> Inr (0, print_stats vd sel (thread_safe_print Stats_header w3)))"
  using assms(1,2) unfolding assms(3) by (simp add: main_def Let_def)

text \<open>The statistics are lines of their own kind.\<close>

lemma print_stats_lines:
  "\<exists>ls. console (print_stats vd sel w) = console w @ ls \<and> (\<forall>l \<in> set ls. \<exists>sys k. l = Stats sys k)"
proof (induction sel arbitrary: w)
  case Nil
  show ?case by simp
next
  case (Cons sys sel)
  show ?case
  proof (cases "map_of vd sys")
    case None
    with Cons.IH [of w] show ?thesis by simp
  next
    case (Some vm)
    let ?l = "Stats sys (sum_list (map (\<lambda>(v, items). length items) vm))"
    from Cons.IH [of "thread_safe_print ?l w"] obtain ls where
      "console (print_stats vd sel (thread_safe_print ?l w)) = (console w @ [?l]) @ ls"
      and "\<forall>l \<in> set ls. \<exists>sys k. l = Stats sys k"
      by auto
    with Some show ?thesis
      by (intro exI [of _ "?l # ls"]) auto
  qed
qed

lemma print_catalog_lines:
  "\<exists>f. console (print_catalog vd sel w) = console w @ [Rule, Dump f, Rule, Blank]"
  by (simp add: print_catalog_def Let_def)

text \<open>
  C9: when the payload is parsed and its release tag is missing or empty, the catalog
  builder returns the catalog that maps every platform to the empty version map, not
  \<^verbatim>\<open>None\<close>. Planning on that catalog yields no task for any selection, and \<^verbatim>\<open>main\<close> ends
  with exit status 0: it prints that nothing is to be downloaded, it does not print its
  failure diagnostic, and it makes no transfer and touches no file or directory.
\<close>

theorem missing_tag_is_not_a_failure:
  assumes "api w = Parsed rel" and "tag_name rel = None \<or> tag_name rel = Some []"
  shows "fetch_python_versions w = (Some (map (\<lambda>sys. (sys, [])) SYSTEMS), w)
       \<and> plan_systems (map (\<lambda>sys. (sys, [])) SYSTEMS) systems [] [] w = Inr ([], [], w)
       \<and> (\<exists>w'. main a w = Inr (0, w')
             \<and> Nothing_to_download \<in> set (console w')
             \<and> Fetch_failed \<notin> set (drop (length (console w)) (console w'))
             \<and> retrieved w' = retrieved w
             \<and> fs_files w' = fs_files w \<and> fs_dirs w' = fs_dirs w)"
proof -
  let ?init = "map (\<lambda>sys. (sys, [])) SYSTEMS"
  let ?sel = "if arg_system a = ''all'' then SYSTEMS else [arg_system a]"
  let ?w0 = "thread_safe_print (Fetching ?sel) w"
  have tag: "get_or_empty (tag_name rel) = []"
    using assms(2) by (auto simp: get_or_empty_def)
  have fetch: "fetch_python_versions w' = (Some ?init, w')" if "api w' = Parsed rel" for w'
    using that tag by (simp add: fetch_python_versions_def Let_def)
  have plan: "plan_systems ?init sel [] [] w' = Inr ([], [], w')" for sel w'
    by (rule plan_systems_nothing_visited) (rule all_empty_not_visited)
  have nonempty: "?init \<noteq> []"
    by (simp add: SYSTEMS_def)
  let ?w2 = "print_catalog ?init ?sel ?w0"
  let ?w3 = "thread_safe_print Nothing_to_download ?w2"
  let ?w4 = "print_stats ?init ?sel (thread_safe_print Stats_header ?w3)"
  have dl: "download_files ?init ?sel (arg_workers a) ?w2 = Inr ?w3"
    by (simp add: download_files_eq [OF plan])
  have "api ?w0 = Parsed rel"
    using assms(1) by simp
  then have "fetch_python_versions ?w0 = (Some ?init, ?w0)"
    by (rule fetch)
  from main_parsed [OF this nonempty refl] have main: "main a w = Inr (0, ?w4)"
    unfolding dl by simp
  obtain f where cat: "console ?w2 = console ?w0 @ [Rule, Dump f, Rule, Blank]"
    using print_catalog_lines by blast
  obtain ls where ls: "console ?w4 = console (thread_safe_print Stats_header ?w3) @ ls"
    and kind: "\<forall>l \<in> set ls. \<exists>sys k. l = Stats sys k"
    using print_stats_lines by blast
  have con: "console ?w4
       = console w @ ([Fetching ?sel, Rule, Dump f, Rule, Blank, Nothing_to_download, Stats_header] @ ls)"
    unfolding ls by (simp add: cat)
  have told: "Nothing_to_download \<in> set (console ?w4)"
    unfolding con by simp
  have quiet: "Fetch_failed \<notin> set (drop (length (console w)) (console ?w4))"
    unfolding con using kind by auto
  have same: "retrieved ?w4 = retrieved w" "fs_files ?w4 = fs_files w" "fs_dirs ?w4 = fs_dirs w"
    by simp_all
  from main told quiet same fetch [OF assms(1)] plan show ?thesis
    by blast
qed

theorem missing_tag_is_not_a_failure_witness:
  "api untagged_world = Parsed untagged_release
   \<and> tag_name untagged_release = None
   \<and> fetch_python_versions untagged_world
       = (Some [(''Linux'', []), (''macOS'', []), (''Windows'', [])], untagged_world)
   \<and> plan_systems [(''Linux'', []), (''macOS'', []), (''Windows'', [])] [''Linux''] [] []
         untagged_world = Inr ([], [], untagged_world)
   \<and> (\<exists>w'. main linux_args untagged_world = Inr (0, w')
         \<and> Nothing_to_download \<in> set (console w')
         \<and> retrieved w' = [])"
proof -
  have parsed: "api untagged_world = Parsed untagged_release"
    by (simp add: untagged_world_def)
  have tag: "tag_name untagged_release = None"
    by (simp add: untagged_release_def)
  have init: "map (\<lambda>sys. (sys, [])) SYSTEMS = [(''Linux'', []), (''macOS'', []), (''Windows'', [])]"
    by (simp add: SYSTEMS_def)
  have "retrieved untagged_world = []"
    by (simp add: untagged_world_def)
  with missing_tag_is_not_a_failure [of untagged_world untagged_release "[''Linux'']" linux_args]
    parsed tag
  show ?thesis
    unfolding init by auto
qed

section \<open>Skipped destinations and the one-artifact scenario\<close>

text \<open>A complete transfer into an existing directory.\<close>

lemma dsf_complete:
  assumes "remote w u = Complete c" and "p \<notin> fs_dirs w" and "parent_dir p \<in> fs_dirs w"
  shows "download_single_file u p n w
           = ((True, n), w\<lparr>retrieved := retrieved w @ [u], fs_files := (fs_files w)(p \<mapsto> c),
                            console := console w @ [Starting n, Finished n]\<rparr>)"
proof -
  have "urlretrieve u p (thread_safe_print (Starting n) w)
          = (Inr (), (thread_safe_print (Starting n) w)
                       \<lparr>retrieved := retrieved w @ [u], fs_files := (fs_files w)(p \<mapsto> c)\<rparr>)"
    using assms urlretrieve_complete [of "thread_safe_print (Starting n) w" u c p] by simp
  then show ?thesis
    by (simp add: download_single_file_def thread_safe_print_def)
qed

text \<open>What a run leaves at a path that is the destination of no task, and what it prints
  last.\<close>

lemma download_files_result:
  assumes plan: "plan_systems vd systems [] [] w = Inr (sha, dl, w1)"
    and run: "download_files vd systems W w = Inr w'"
  shows "(\<forall>q. q \<notin> destination ` set (sha @ dl) \<longrightarrow> fs_files w' q = fs_files w q)
       \<and> prefix (console w1) (console w')
       \<and> fs_dirs w' = fs_dirs w1
       \<and> (if sha @ dl = [] then console w' = console w1 @ [Nothing_to_download]
                               \<and> retrieved w' = retrieved w
           else 0 < W
              \<and> console w'
                  = console (snd (run_tasks (sha @ dl)
                       (thread_safe_print (Preparing (length (sha @ dl)) W) w1)))
                    @ [Tally (length (filter fst (fst (run_tasks (sha @ dl)
                                (thread_safe_print (Preparing (length (sha @ dl)) W) w1)))))
                             (length (filter (\<lambda>r. \<not> fst r) (fst (run_tasks (sha @ dl)
                                (thread_safe_print (Preparing (length (sha @ dl)) W) w1)))))]
              \<and> retrieved w' = retrieved w @ map fst (sha @ dl))"
proof -
  from plan_systems_frame [OF plan]
  have files: "fs_files w1 = fs_files w" and got: "retrieved w1 = retrieved w"
    by simp_all
  show ?thesis
  proof (cases "sha @ dl = []")
    case True
    with run have "w' = thread_safe_print Nothing_to_download w1"
      by (simp add: download_files_eq [OF plan])
    with True files got show ?thesis by simp
  next
    case False
    let ?wq = "thread_safe_print (Preparing (length (sha @ dl)) W) w1"
    let ?rs = "fst (run_tasks (sha @ dl) ?wq)"
    from False run have pos: "0 < W"
      and w': "w' = thread_safe_print
                      (Tally (length (filter fst ?rs)) (length (filter (\<lambda>r. \<not> fst r) ?rs)))
                      (snd (run_tasks (sha @ dl) ?wq))"
      by (auto simp: download_files_eq [OF plan] run_pool_eq split: if_splits)
    have "fs_files w' q = fs_files w q" if "q \<notin> destination ` set (sha @ dl)" for q
      using run_tasks_files_other [OF that, of ?wq] files by (simp add: w')
    moreover have "prefix (console w1) (console w')"
    proof -
      have "prefix (console ?wq) (console (snd (run_tasks (sha @ dl) ?wq)))"
        by (rule run_tasks_console_prefix)
      then have "prefix (console w1) (console (snd (run_tasks (sha @ dl) ?wq)))"
        by (auto dest: append_prefixD)
      then show ?thesis
        by (simp add: w' prefix_def) auto
    qed
    ultimately show ?thesis
      using False pos got by (simp add: w')
  qed
qed

lemma demo_lookup:
  "map_of demo_catalog ''Linux''
     = Some [(''v1'', [\<lparr>filename = ''py-v1-x86_64.tar.gz'', platform = ''x86_64'',
                        url = ''http://x/a'', sha256 = None\<rparr>])]"
  by (simp add: demo_catalog_def)

lemma demo_tasks:
  "manifest_of ''Linux'' ''v1'' = manifest_task"
  "artifact_of ''Linux'' \<lparr>filename = ''py-v1-x86_64.tar.gz'', platform = ''x86_64'',
                        url = ''http://x/a'', sha256 = None\<rparr> = artifact_task"
  by (simp_all add: manifest_of_def artifact_of_def manifest_task_def artifact_task_def
      linux_folder sha_name_def path_join_def sep_def)

text \<open>Planning the one-artifact catalog for Linux, in any environment in which the
  directory can be made.\<close>

lemma demo_plan:
  assumes "\<not> obstructed w (folder_of ''Linux'')"
  shows "plan_systems demo_catalog [''Linux''] [] [] w
           = Inr (filter (pending (with_dirs ''Linux'' w)) [manifest_task],
                  filter (pending (with_dirs ''Linux'' w)) [artifact_task],
                  (with_dirs ''Linux'' w)
                    \<lparr>console := console w
                        @ map (\<lambda>t. Skipped (display_name t))
                            (filter (\<lambda>t. \<not> pending (with_dirs ''Linux'' w) t)
                               [manifest_task, artifact_task])\<rparr>)"
  using assms
  by (simp add: plan_systems_Cons demo_lookup sha_new_def dl_new_def notices_def
      version_candidates_def demo_tasks del: plan_systems.simps(2))

lemma demo_destinations:
  "destination manifest_task = ''downloads/Linux/Python/SHA256SUMS-v1.txt''"
  "destination artifact_task = ''downloads/Linux/Python/py-v1-x86_64.tar.gz''"
  "display_name manifest_task = ''SHA256SUMS-v1.txt''"
  "display_name artifact_task = ''py-v1-x86_64.tar.gz''"
  by (simp_all add: destination_def display_name_def manifest_task_def artifact_task_def)

lemma demo_pending_with_dirs:
  "pending (with_dirs ''Linux'' w) manifest_task = pending w manifest_task"
  "pending (with_dirs ''Linux'' w) artifact_task = pending w artifact_task"
  by (simp_all add: pending_def path_exists_def demo_destinations linux_folder linux_ancestors
      linux_dirs_def)

text \<open>
  C5: whenever planning returns, a candidate (the manifest of a version or the artifact of
  a descriptor of a selected platform) whose destination exists in the initial
  environment is announced as skipped and is the destination of no planned task; and
  whenever the run returns, the file at that destination is what it was, the notice is
  on the console, and the tally, when there is one, adds up to the number of planned
  tasks, among which the candidate is not. For the one-artifact catalog with the
  artifact on the disk, planning for Linux yields the manifest task alone, and the run
  makes one transfer and leaves the artifact file as it was.
\<close>

theorem existing_destinations_are_skipped:
  "(\<forall>sha dl w1 t.
       plan_systems vd systems [] [] w = Inr (sha, dl, w1) \<longrightarrow>
       t \<in> set (manifest_candidates vd systems) \<union> set (artifact_candidates vd systems) \<longrightarrow>
       path_exists w (destination t) \<longrightarrow>
         Skipped (display_name t) \<in> set (console w1)
       \<and> destination t \<notin> destination ` set (sha @ dl)
       \<and> (\<forall>w'. download_files vd systems W w = Inr w' \<longrightarrow>
              fs_files w' (destination t) = fs_files w (destination t)
            \<and> Skipped (display_name t) \<in> set (console w')
            \<and> (sha @ dl = [] \<or>
                 (\<exists>success_count failed_count.
                     last (console w') = Tally success_count failed_count
                   \<and> success_count + failed_count = length (sha @ dl)))))
   \<and> plan_systems demo_catalog [''Linux''] [] [] artifact_present_world
       = Inr ([manifest_task], [],
              artifact_present_world\<lparr>console := [Skipped ''py-v1-x86_64.tar.gz'']\<rparr>)
   \<and> (\<exists>w'. download_files demo_catalog [''Linux''] 3 artifact_present_world = Inr w'
         \<and> fs_files w' ''downloads/Linux/Python/py-v1-x86_64.tar.gz'' = Some ''old''
         \<and> retrieved w' = [sha_link ''v1''])"
proof (intro conjI allI impI)
  fix sha dl w1 t
  assume plan: "plan_systems vd systems [] [] w = Inr (sha, dl, w1)"
    and cand: "t \<in> set (manifest_candidates vd systems) \<union> set (artifact_candidates vd systems)"
    and there: "path_exists w (destination t)"
  from there have settled: "\<not> pending w t"
    by (simp add: pending_def)
  from plan_systems_coverage [OF plan] cand settled
  show told: "Skipped (display_name t) \<in> set (console w1)"
    by blast
  from plan_systems_tasks [OF plan] have "\<forall>t' \<in> set (sha @ dl). pending w t'"
    by auto
  with there show apart: "destination t \<notin> destination ` set (sha @ dl)"
    by (auto simp: pending_def)
  fix w'
  assume run: "download_files vd systems W w = Inr w'"
  note result = download_files_result [OF plan run]
  from result apart show "fs_files w' (destination t) = fs_files w (destination t)"
    by blast
  from result have "prefix (console w1) (console w')"
    by blast
  from set_mono_prefix [OF this] told show "Skipped (display_name t) \<in> set (console w')"
    by blast
  show "sha @ dl = [] \<or>
          (\<exists>success_count failed_count.
              last (console w') = Tally success_count failed_count
            \<and> success_count + failed_count = length (sha @ dl))"
  proof (cases "sha @ dl = []")
    case True
    then show ?thesis by blast
  next
    case False
    let ?rs = "fst (run_tasks (sha @ dl)
                     (thread_safe_print (Preparing (length (sha @ dl)) W) w1))"
    from result False
    have "last (console w')
            = Tally (length (filter fst ?rs)) (length (filter (\<lambda>r. \<not> fst r) ?rs))"
      by simp
    moreover have "length (filter fst ?rs) + length (filter (\<lambda>r. \<not> fst r) ?rs) = length ?rs"
      by (rule sum_length_filter_compl)
    moreover have "length ?rs = length (sha @ dl)"
      by (simp add: run_tasks_outcomes del: map_append)
    ultimately show ?thesis by simp
  qed
next
  have free: "\<not> obstructed artifact_present_world (folder_of ''Linux'')"
    by (simp add: obstructed_def linux_folder linux_ancestors artifact_present_world_def)
  have same: "with_dirs ''Linux'' artifact_present_world = artifact_present_world"
    by (simp add: with_dirs_def linux_folder linux_ancestors artifact_present_world_def)
  have pend: "pending artifact_present_world manifest_task"
    "\<not> pending artifact_present_world artifact_task"
    by (simp_all add: pending_def path_exists_def demo_destinations artifact_present_world_def
        no_files_def linux_dirs_def)
  have "console artifact_present_world = []"
    by (simp add: artifact_present_world_def)
  with demo_plan [OF free] pend
  show plan: "plan_systems demo_catalog [''Linux''] [] [] artifact_present_world
       = Inr ([manifest_task], [],
              artifact_present_world\<lparr>console := [Skipped ''py-v1-x86_64.tar.gz'']\<rparr>)"
    unfolding same by (simp add: demo_destinations)
  let ?w1 = "artifact_present_world\<lparr>console := [Skipped ''py-v1-x86_64.tar.gz'']\<rparr>"
  have "\<exists>w'. run_pool 3 [manifest_task] [] (thread_safe_print (Preparing 1 3) ?w1) = Inr w'"
    by (simp add: run_pool_eq)
  then obtain w' where run: "download_files demo_catalog [''Linux''] 3 artifact_present_world = Inr w'"
    by (auto simp: download_files_eq [OF plan])
  note result = download_files_result [OF plan run]
  have "''downloads/Linux/Python/py-v1-x86_64.tar.gz'' \<notin> destination ` set ([manifest_task] @ [])"
    by (simp add: demo_destinations)
  with result have "fs_files w' ''downloads/Linux/Python/py-v1-x86_64.tar.gz''
                      = fs_files artifact_present_world ''downloads/Linux/Python/py-v1-x86_64.tar.gz''"
    by blast
  moreover from result have "retrieved w' = retrieved artifact_present_world @ [sha_link ''v1'']"
    by (simp add: manifest_task_def)
  ultimately show "\<exists>w'. download_files demo_catalog [''Linux''] 3 artifact_present_world = Inr w'
         \<and> fs_files w' ''downloads/Linux/Python/py-v1-x86_64.tar.gz'' = Some ''old''
         \<and> retrieved w' = [sha_link ''v1'']"
    using run by (auto simp: artifact_present_world_def)
qed

theorem existing_destinations_are_skipped_witness:
  "artifact_task \<in> set (manifest_candidates demo_catalog [''Linux''])
                     \<union> set (artifact_candidates demo_catalog [''Linux''])
   \<and> path_exists artifact_present_world (destination artifact_task)
   \<and> plan_systems demo_catalog [''Linux''] [] [] artifact_present_world
       = Inr ([manifest_task], [],
              artifact_present_world\<lparr>console := [Skipped ''py-v1-x86_64.tar.gz'']\<rparr>)
   \<and> destination artifact_task \<notin> destination ` set ([manifest_task] @ [])
   \<and> (\<exists>w'. download_files demo_catalog [''Linux''] 3 artifact_present_world = Inr w'
         \<and> fs_files w' (destination artifact_task)
             = fs_files artifact_present_world (destination artifact_task)
         \<and> Skipped (display_name artifact_task) \<in> set (console w')
         \<and> (\<exists>success_count failed_count.
                last (console w') = Tally success_count failed_count
              \<and> success_count + failed_count = 1))"
proof -
  note inst = existing_destinations_are_skipped
    [of demo_catalog "[''Linux'']" artifact_present_world 3]
  let ?w1 = "artifact_present_world\<lparr>console := [Skipped ''py-v1-x86_64.tar.gz'']\<rparr>"
  have cand: "artifact_task \<in> set (manifest_candidates demo_catalog [''Linux''])
                     \<union> set (artifact_candidates demo_catalog [''Linux''])"
    by (simp add: demo_candidates)
  have there: "path_exists artifact_present_world (destination artifact_task)"
    by (simp add: path_exists_def demo_destinations artifact_present_world_def)
  from inst have plan: "plan_systems demo_catalog [''Linux''] [] [] artifact_present_world
       = Inr ([manifest_task], [], ?w1)"
    by blast
  from inst obtain w' where
    run: "download_files demo_catalog [''Linux''] 3 artifact_present_world = Inr w'"
    by blast
  from inst plan cand there have
    general: "destination artifact_task \<notin> destination ` set ([manifest_task] @ [])
       \<and> (\<forall>w'. download_files demo_catalog [''Linux''] 3 artifact_present_world = Inr w' \<longrightarrow>
              fs_files w' (destination artifact_task)
                = fs_files artifact_present_world (destination artifact_task)
            \<and> Skipped (display_name artifact_task) \<in> set (console w')
            \<and> ([manifest_task] @ [] = [] \<or>
                 (\<exists>success_count failed_count.
                     last (console w') = Tally success_count failed_count
                   \<and> success_count + failed_count = length ([manifest_task] @ []))))"
    by blast
  with run have "fs_files w' (destination artifact_task)
             = fs_files artifact_present_world (destination artifact_task)
         \<and> Skipped (display_name artifact_task) \<in> set (console w')
         \<and> (\<exists>success_count failed_count.
                last (console w') = Tally success_count failed_count
              \<and> success_count + failed_count = 1)"
    by simp
  with run cand there plan general show ?thesis
    by blast
qed

text \<open>
  C3: for the one-artifact catalog and the selection of Linux, in every environment in
  which neither destination exists, the directory can be made, both URLs are served
  completely and the pool has at least one worker, planning yields exactly the manifest
  task and the artifact task, and the run ends with both files written, two transfers
  made, and the tally of 2 successes and 0 failures as its last line.
\<close>

theorem one_artifact_scenario:
  assumes "\<not> obstructed w (folder_of ''Linux'')"
    and "\<not> path_exists w ''downloads/Linux/Python/SHA256SUMS-v1.txt''"
    and "\<not> path_exists w ''downloads/Linux/Python/py-v1-x86_64.tar.gz''"
    and "remote w (sha_link ''v1'') = Complete c1"
    and "remote w ''http://x/a'' = Complete c2"
    and "0 < W"
  shows "plan_systems demo_catalog [''Linux''] [] [] w
           = Inr ([(sha_link ''v1'', ''downloads/Linux/Python/SHA256SUMS-v1.txt'',
                    ''SHA256SUMS-v1.txt'')],
                  [(''http://x/a'', ''downloads/Linux/Python/py-v1-x86_64.tar.gz'',
                    ''py-v1-x86_64.tar.gz'')],
                  w\<lparr>fs_dirs := fs_dirs w \<union> linux_dirs\<rparr>)
       \<and> download_files demo_catalog [''Linux''] W w
           = Inr (w\<lparr>fs_dirs := fs_dirs w \<union> linux_dirs,
                     fs_files := (fs_files w)
                        (''downloads/Linux/Python/SHA256SUMS-v1.txt'' \<mapsto> c1,
                         ''downloads/Linux/Python/py-v1-x86_64.tar.gz'' \<mapsto> c2),
                     retrieved := retrieved w @ [sha_link ''v1'', ''http://x/a''],
                     console := console w
                        @ [Preparing 2 W,
                           Starting ''SHA256SUMS-v1.txt'', Finished ''SHA256SUMS-v1.txt'',
                           Starting ''py-v1-x86_64.tar.gz'', Finished ''py-v1-x86_64.tar.gz'',
                           Tally 2 0]\<rparr>)"
proof -
  let ?w1 = "w\<lparr>fs_dirs := fs_dirs w \<union> linux_dirs\<rparr>"
  have w1: "with_dirs ''Linux'' w = ?w1"
    by (simp add: with_dirs_def linux_folder linux_ancestors)
  have pend: "pending ?w1 manifest_task" "pending ?w1 artifact_task"
    using assms(2,3) demo_pending_with_dirs [of w]
    unfolding w1 by (simp_all add: pending_def demo_destinations)
  have plan: "plan_systems demo_catalog [''Linux''] [] [] w
                = Inr ([manifest_task], [artifact_task], ?w1)"
    using demo_plan [OF assms(1)] pend unfolding w1 by simp
  let ?wq = "thread_safe_print (Preparing 2 W) ?w1"
  have not_dirs: "''downloads/Linux/Python/SHA256SUMS-v1.txt'' \<notin> fs_dirs ?w1"
    "''downloads/Linux/Python/py-v1-x86_64.tar.gz'' \<notin> fs_dirs ?w1"
    using pend by (simp_all add: pending_def path_exists_def demo_destinations)
  have parent: "parent_dir ''downloads/Linux/Python/SHA256SUMS-v1.txt'' \<in> fs_dirs ?w1"
    "parent_dir ''downloads/Linux/Python/py-v1-x86_64.tar.gz'' \<in> fs_dirs ?w1"
    by (simp_all add: parent_dir_def sep_def linux_dirs_def)
  let ?w2 = "?wq\<lparr>retrieved := retrieved w @ [sha_link ''v1''],
                  fs_files := (fs_files w)(''downloads/Linux/Python/SHA256SUMS-v1.txt'' \<mapsto> c1),
                  console := console w @ [Preparing 2 W, Starting ''SHA256SUMS-v1.txt'',
                                          Finished ''SHA256SUMS-v1.txt'']\<rparr>"
  have first: "download_single_file (sha_link ''v1'') ''downloads/Linux/Python/SHA256SUMS-v1.txt''
                 ''SHA256SUMS-v1.txt'' ?wq = ((True, ''SHA256SUMS-v1.txt''), ?w2)"
    using dsf_complete [of ?wq "sha_link ''v1''" c1 "''downloads/Linux/Python/SHA256SUMS-v1.txt''"
        "''SHA256SUMS-v1.txt''"] assms(4) not_dirs(1) parent(1)
    by simp
  let ?w3 = "?w2\<lparr>retrieved := retrieved w @ [sha_link ''v1'', ''http://x/a''],
                  fs_files := (fs_files w)
                     (''downloads/Linux/Python/SHA256SUMS-v1.txt'' \<mapsto> c1,
                      ''downloads/Linux/Python/py-v1-x86_64.tar.gz'' \<mapsto> c2),
                  console := console w @ [Preparing 2 W, Starting ''SHA256SUMS-v1.txt'',
                                          Finished ''SHA256SUMS-v1.txt'',
                                          Starting ''py-v1-x86_64.tar.gz'',
                                          Finished ''py-v1-x86_64.tar.gz'']\<rparr>"
  have second: "download_single_file ''http://x/a'' ''downloads/Linux/Python/py-v1-x86_64.tar.gz''
                 ''py-v1-x86_64.tar.gz'' ?w2 = ((True, ''py-v1-x86_64.tar.gz''), ?w3)"
    using dsf_complete [of ?w2 "''http://x/a''" c2 "''downloads/Linux/Python/py-v1-x86_64.tar.gz''"
        "''py-v1-x86_64.tar.gz''"] assms(5) not_dirs(2) parent(2)
    by simp
  have run: "run_tasks ([manifest_task] @ [artifact_task]) ?wq
               = ([(True, ''SHA256SUMS-v1.txt''), (True, ''py-v1-x86_64.tar.gz'')], ?w3)"
    by (simp add: manifest_task_def artifact_task_def first second)
  have two: "length [manifest_task] + length [artifact_task] = 2"
    by simp
  have "download_files demo_catalog [''Linux''] W w
          = run_pool W [manifest_task] [artifact_task] ?wq"
    unfolding download_files_eq [OF plan] two by simp
  also have "\<dots> = Inr (thread_safe_print (Tally 2 0) ?w3)"
    unfolding run_pool_eq run using assms(6) by simp
  finally have "download_files demo_catalog [''Linux''] W w
                  = Inr (thread_safe_print (Tally 2 0) ?w3)" .
  then show ?thesis
    using plan by (simp add: manifest_task_def artifact_task_def thread_safe_print_def)
qed

theorem one_artifact_scenario_witness:
  "\<not> obstructed fresh_world (folder_of ''Linux'')
   \<and> \<not> path_exists fresh_world ''downloads/Linux/Python/SHA256SUMS-v1.txt''
   \<and> \<not> path_exists fresh_world ''downloads/Linux/Python/py-v1-x86_64.tar.gz''
   \<and> remote fresh_world (sha_link ''v1'') = Complete ''abc''
   \<and> remote fresh_world ''http://x/a'' = Complete ''abc''
   \<and> (0::int) < 3
   \<and> plan_systems demo_catalog [''Linux''] [] [] fresh_world
           = Inr ([(sha_link ''v1'', ''downloads/Linux/Python/SHA256SUMS-v1.txt'',
                    ''SHA256SUMS-v1.txt'')],
                  [(''http://x/a'', ''downloads/Linux/Python/py-v1-x86_64.tar.gz'',
                    ''py-v1-x86_64.tar.gz'')],
                  fresh_world\<lparr>fs_dirs := fs_dirs fresh_world \<union> linux_dirs\<rparr>)
   \<and> download_files demo_catalog [''Linux''] 3 fresh_world
           = Inr (fresh_world\<lparr>fs_dirs := fs_dirs fresh_world \<union> linux_dirs,
                     fs_files := (fs_files fresh_world)
                        (''downloads/Linux/Python/SHA256SUMS-v1.txt'' \<mapsto> ''abc'',
                         ''downloads/Linux/Python/py-v1-x86_64.tar.gz'' \<mapsto> ''abc''),
                     retrieved := retrieved fresh_world @ [sha_link ''v1'', ''http://x/a''],
                     console := console fresh_world
                        @ [Preparing 2 3,
                           Starting ''SHA256SUMS-v1.txt'', Finished ''SHA256SUMS-v1.txt'',
                           Starting ''py-v1-x86_64.tar.gz'', Finished ''py-v1-x86_64.tar.gz'',
                           Tally 2 0]\<rparr>)"
proof -
  have h1: "\<not> obstructed fresh_world (folder_of ''Linux'')"
    by (simp add: obstructed_def fresh_world_def no_files_def)
  have h2: "\<not> path_exists fresh_world ''downloads/Linux/Python/SHA256SUMS-v1.txt''"
    and h3: "\<not> path_exists fresh_world ''downloads/Linux/Python/py-v1-x86_64.tar.gz''"
    by (simp_all add: path_exists_def fresh_world_def no_files_def)
  have h4: "remote fresh_world (sha_link ''v1'') = Complete ''abc''"
    and h5: "remote fresh_world ''http://x/a'' = Complete ''abc''"
    by (simp_all add: fresh_world_def always_def)
  have h6: "(0::int) < 3"
    by simp
  from one_artifact_scenario [OF h1 h2 h3 h4 h5 h6] h1 h2 h3 h4 h5 h6 show ?thesis
    by blast
qed

section \<open>Running twice\<close>

lemma drop_later:
  assumes "prefix xs ys"
  shows "set (drop (length ys) zs) \<subseteq> set (drop (length xs) zs)"
  using assms by (intro set_drop_subset_set_drop) (simp add: prefix_length_le)

lemma drop_longer:
  assumes "prefix ys zs"
  shows "set (drop n ys) \<subseteq> set (drop n zs)"
  using assms by (auto simp: prefix_def)

text \<open>A failed task leaves its line among the lines printed by the pool.\<close>

lemma run_tasks_failure_printed:
  assumes "\<exists>r \<in> set (fst (run_tasks ts w)). \<not> fst r"
  shows "\<exists>n e. Failed n e \<in> set (drop (length (console w)) (console (snd (run_tasks ts w))))"
  using assms
proof (induction ts arbitrary: w)
  case Nil
  then show ?case by simp
next
  case (Cons t ts)
  let ?d = "download_single_file (fst t) (destination t) (display_name t) w"
  let ?final = "console (snd (run_tasks ts (snd ?d)))"
  have final: "console (snd (run_tasks (t # ts) w)) = ?final"
    by (simp add: run_tasks_Cons del: run_tasks.simps)
  show ?case
  proof (cases "fst (fst ?d)")
    case True
    with Cons.prems have "\<exists>r \<in> set (fst (run_tasks ts (snd ?d))). \<not> fst r"
      by (simp add: run_tasks_Cons del: run_tasks.simps)
    from Cons.IH [OF this] obtain n e where
      "Failed n e \<in> set (drop (length (console (snd ?d))) ?final)"
      by blast
    with drop_later [OF dsf_console_prefix [of w "fst t" "destination t" "display_name t"], of ?final]
    show ?thesis
      unfolding final by blast
  next
    case False
    from dsf_failure [OF this] obtain e where
      "console (snd ?d) = console w @ [Starting (display_name t), Failed (display_name t) e]"
      by blast
    then have "Failed (display_name t) e \<in> set (drop (length (console w)) (console (snd ?d)))"
      by simp
    with drop_longer [OF run_tasks_console_prefix [of "snd ?d" ts], of "length (console w)"]
    show ?thesis
      unfolding final by blast
  qed
qed

lemma main_unavailable_eq:
  assumes "api w = Net_failure \<or> api w = Malformed"
  shows "main a w
           = Inr (1, w\<lparr>console := console w
                      @ [Fetching (if arg_system a = ''all'' then SYSTEMS else [arg_system a]),
                         Fetch_error (if api w = Net_failure then URLError else ValueError),
                         Fetch_failed]\<rparr>)"
proof -
  let ?sel = "if arg_system a = ''all'' then SYSTEMS else [arg_system a]"
  let ?w0 = "thread_safe_print (Fetching ?sel) w"
  let ?e = "if api w = Net_failure then URLError else ValueError"
  have "fetch_python_versions ?w0 = (None, thread_safe_print (Fetch_error ?e) ?w0)"
    using assms fetch_failed [of ?w0] by simp
  then have "main a w = Inr (1, thread_safe_print Fetch_failed (thread_safe_print (Fetch_error ?e) ?w0))"
    by (rule main_unavailable) simp
  then show ?thesis
    by (simp add: thread_safe_print_def)
qed

text \<open>The catalog depends on the payload only.\<close>

lemma fetch_parsed_any:
  assumes "api w = Parsed rel"
  obtains vd where "vd \<noteq> []" and "\<And>w'. api w' = Parsed rel \<Longrightarrow> fetch_python_versions w' = (Some vd, w')"
proof (cases "get_or_empty (tag_name rel) = []")
  case True
  let ?init = "map (\<lambda>sys. (sys, [])) SYSTEMS"
  have "?init \<noteq> []" by (simp add: SYSTEMS_def)
  moreover have "fetch_python_versions w' = (Some ?init, w')" if "api w' = Parsed rel" for w'
    using that True by (simp add: fetch_python_versions_def)
  ultimately show ?thesis by (rule that)
next
  case False
  obtain cat where cat:
    "scan_assets (get_or_empty (tag_name rel)) (payload rel) (map (\<lambda>sys. (sys, [])) SYSTEMS)
       = Inr cat" and keys: "map fst cat = SYSTEMS"
    using scan_assets_keys [OF initial_keys] by blast
  from keys have "cat \<noteq> []" by (auto simp: SYSTEMS_def)
  moreover have "fetch_python_versions w' = (Some cat, w')" if "api w' = Parsed rel" for w'
    using that False cat by (simp add: fetch_python_versions_def)
  ultimately show ?thesis by (rule that)
qed

lemma download_files_planned:
  assumes "download_files vd systems W w = Inr w'"
  obtains sha dl w1 where "plan_systems vd systems [] [] w = Inr (sha, dl, w1)"
  using assms by (auto simp: download_files_def split: sum.splits)

text \<open>A run of the downloader that printed no failure leaves every candidate in place
  and every directory made: a second planning finds nothing to do.\<close>

lemma download_files_settles:
  assumes run: "download_files vd systems W w = Inr w'"
    and quiet: "\<forall>n e. Failed n e \<notin> set (drop (length (console w)) (console w'))"
  shows "(\<forall>sys \<in> set (visited vd systems). set (ancestors (folder_of sys)) \<subseteq> fs_dirs w')
       \<and> (\<forall>t \<in> set (manifest_candidates vd systems) \<union> set (artifact_candidates vd systems).
             \<not> pending w' t)"
proof -
  from run obtain sha dl w1 where plan: "plan_systems vd systems [] [] w = Inr (sha, dl, w1)"
    by (rule download_files_planned)
  note frame = plan_systems_frame [OF plan]
  note result = download_files_result [OF plan run]
  from frame have dirs1: "\<forall>sys \<in> set (visited vd systems). set (ancestors (folder_of sys)) \<subseteq> fs_dirs w1"
    by auto
  from result have dirs: "fs_dirs w' = fs_dirs w1"
    by blast
  from plan_systems_coverage [OF plan]
  have cover: "\<forall>t \<in> set (manifest_candidates vd systems) \<union> set (artifact_candidates vd systems).
                 t \<in> set (sha @ dl) \<or> \<not> pending w1 t"
    by auto
  have files: "(\<forall>q. fs_files w1 q \<noteq> None \<longrightarrow> fs_files w' q \<noteq> None)
             \<and> (\<forall>t \<in> set (sha @ dl). fs_files w' (destination t) \<noteq> None)"
  proof (cases "sha @ dl = []")
    case True
    with run have "w' = thread_safe_print Nothing_to_download w1"
      by (simp add: download_files_eq [OF plan])
    with True show ?thesis by simp
  next
    case False
    let ?wq = "thread_safe_print (Preparing (length (sha @ dl)) W) w1"
    let ?rs = "fst (run_tasks (sha @ dl) ?wq)"
    let ?wr = "snd (run_tasks (sha @ dl) ?wq)"
    from False run have w': "w' = thread_safe_print
                      (Tally (length (filter fst ?rs)) (length (filter (\<lambda>r. \<not> fst r) ?rs))) ?wr"
      by (auto simp: download_files_eq [OF plan] run_pool_eq split: if_splits)
    have "\<forall>r \<in> set ?rs. fst r"
    proof (rule ccontr)
      assume "\<not> (\<forall>r \<in> set ?rs. fst r)"
      then have "\<exists>r \<in> set ?rs. \<not> fst r" by blast
      from run_tasks_failure_printed [OF this] obtain n e where
        "Failed n e \<in> set (drop (length (console ?wq)) (console ?wr))"
        by blast
      moreover have "prefix (console w) (console ?wq)"
        using frame by (auto simp: prefix_def)
      moreover have "prefix (console ?wr) (console w')"
        by (simp add: w')
      ultimately have "Failed n e \<in> set (drop (length (console w)) (console w'))"
        using drop_later [of "console w" "console ?wq" "console ?wr"]
          drop_longer [of "console ?wr" "console w'" "length (console w)"]
        by blast
      with quiet show False by blast
    qed
    from run_tasks_all_succeed [OF this] show ?thesis
      by (simp add: w')
  qed
  have "\<not> pending w' t"
    if "t \<in> set (manifest_candidates vd systems) \<union> set (artifact_candidates vd systems)" for t
  proof (cases "t \<in> set (sha @ dl)")
    case True
    with files show ?thesis
      by (auto simp: pending_def path_exists_def)
  next
    case False
    with cover that have "\<not> pending w1 t" by blast
    with files dirs show ?thesis
      by (auto simp: pending_def path_exists_def)
  qed
  with dirs1 dirs show ?thesis by simp
qed

lemma download_files_api:
  assumes "download_files vd systems W w = Inr w'"
  shows "api w' = api w"
proof -
  from assms obtain sha dl w1 where plan: "plan_systems vd systems [] [] w = Inr (sha, dl, w1)"
    by (rule download_files_planned)
  from plan_systems_frame [OF plan] have "api w1 = api w" by simp
  with assms show ?thesis
    by (auto simp: download_files_eq [OF plan] run_pool_eq split: if_splits)
qed

text \<open>
  C4, amended: when a run of the whole pipeline has ended without printing a failed
  transfer, a second run in the environment it left (same payload, same servers) ends
  with the same exit status and makes no transfer, and it changes no file and no
  directory: every destination is on the disk and is skipped. And the planner makes a
  task only for a destination that does not exist when planning starts.
\<close>

theorem quiet_first_run_makes_second_run_idle:
  "(\<forall>status w1.
       main a w = Inr (status, w1) \<longrightarrow>
       (\<forall>n e. Failed n e \<notin> set (drop (length (console w)) (console w1))) \<longrightarrow>
       (\<exists>w2. main a w1 = Inr (status, w2)
           \<and> retrieved w2 = retrieved w1
           \<and> fs_files w2 = fs_files w1 \<and> fs_dirs w2 = fs_dirs w1))
   \<and> (\<forall>sha dl wp.
         plan_systems vd systems [] [] w = Inr (sha, dl, wp) \<longrightarrow>
         (\<forall>t \<in> set (sha @ dl). \<not> path_exists w (destination t)))"
proof (intro conjI allI impI)
  fix sha dl wp
  assume "plan_systems vd systems [] [] w = Inr (sha, dl, wp)"
  from plan_systems_tasks [OF this] show "\<forall>t \<in> set (sha @ dl). \<not> path_exists w (destination t)"
    by (auto simp: pending_def)
next
  fix status w1
  assume first: "main a w = Inr (status, w1)"
    and quiet: "\<forall>n e. Failed n e \<notin> set (drop (length (console w)) (console w1))"
  let ?sel = "if arg_system a = ''all'' then SYSTEMS else [arg_system a]"
  show "\<exists>w2. main a w1 = Inr (status, w2) \<and> retrieved w2 = retrieved w1
           \<and> fs_files w2 = fs_files w1 \<and> fs_dirs w2 = fs_dirs w1"
  proof (cases "api w")
    case Net_failure
    with first main_unavailable_eq [of w a] have "status = 1" "api w1 = Net_failure"
      by auto
    with main_unavailable_eq [of w1 a] show ?thesis by simp
  next
    case Malformed
    with first main_unavailable_eq [of w a] have "status = 1" "api w1 = Malformed"
      by auto
    with main_unavailable_eq [of w1 a] show ?thesis by simp
  next
    case (Parsed rel)
    then obtain cat where nonempty: "cat \<noteq> []"
      and fetch: "\<And>w'. api w' = Parsed rel \<Longrightarrow> fetch_python_versions w' = (Some cat, w')"
      by (rule fetch_parsed_any) blast
    let ?w0 = "thread_safe_print (Fetching ?sel) w"
    let ?wc = "print_catalog cat ?sel ?w0"
    have "fetch_python_versions ?w0 = (Some cat, ?w0)"
      using Parsed by (intro fetch) simp
    note unfolded = main_parsed [OF this nonempty refl]
    from first obtain w3 where run: "download_files cat ?sel (arg_workers a) ?wc = Inr w3"
      and status: "status = 0"
      and w1: "w1 = print_stats cat ?sel (thread_safe_print Stats_header w3)"
      unfolding unfolded by (auto split: sum.splits)
    have up_to: "prefix (console w) (console ?wc)"
      using print_catalog_lines [of cat ?sel ?w0] by (auto simp: prefix_def)
    have after: "prefix (console w3) (console w1)"
      unfolding w1
      using print_stats_console [of "thread_safe_print Stats_header w3" cat ?sel]
      by (auto dest: append_prefixD)
    have "\<forall>n e. Failed n e \<notin> set (drop (length (console ?wc)) (console w3))"
      using quiet drop_later [OF up_to, of "console w3"]
        drop_longer [OF after, of "length (console w)"]
      by blast
    from download_files_settles [OF run this]
    have dirs: "\<forall>sys \<in> set (visited cat ?sel). set (ancestors (folder_of sys)) \<subseteq> fs_dirs w3"
      and none: "\<forall>t \<in> set (manifest_candidates cat ?sel) \<union> set (artifact_candidates cat ?sel).
                   \<not> pending w3 t"
      by blast+
    have api1: "api w1 = Parsed rel"
      using Parsed download_files_planned [OF run] plan_systems_frame
        download_files_api [OF run] by (simp add: w1)
    let ?v0 = "thread_safe_print (Fetching ?sel) w1"
    let ?vc = "print_catalog cat ?sel ?v0"
    have same_disk: "fs_files ?vc = fs_files w3" "fs_dirs ?vc = fs_dirs w3"
      by (simp_all add: w1)
    then have pend: "pending ?vc = pending w3"
      by (rule pending_cong)
    from plan_systems_settled [of cat ?sel ?vc "[]" "[]"] dirs none obtain ls where
      plan2: "plan_systems cat ?sel [] [] ?vc = Inr ([], [], ?vc\<lparr>console := console ?vc @ ls\<rparr>)"
      unfolding pend same_disk by blast
    let ?v3 = "thread_safe_print Nothing_to_download (?vc\<lparr>console := console ?vc @ ls\<rparr>)"
    have run2: "download_files cat ?sel (arg_workers a) ?vc = Inr ?v3"
      by (simp add: download_files_eq [OF plan2])
    have "fetch_python_versions ?v0 = (Some cat, ?v0)"
      using api1 by (intro fetch) simp
    from main_parsed [OF this nonempty refl]
    have "main a w1 = Inr (0, print_stats cat ?sel (thread_safe_print Stats_header ?v3))"
      unfolding run2 by simp
    with status show ?thesis by simp
  qed
qed

lemma dsf_unreachable:
  assumes "remote w u = Unreachable" and "\<not> path_exists w p"
  shows "download_single_file u p n w
           = ((False, n), w\<lparr>retrieved := retrieved w @ [u],
                             console := console w @ [Starting n, Failed n URLError]\<rparr>)"
  using assms
  by (simp add: download_single_file_def urlretrieve_def path_exists_def thread_safe_print_def)

lemma sample_lookup:
  "map_of sample_catalog ''Linux''
     = Some [(''20240107'',
          [\<lparr>filename = ''cpython-3.12.1-x86_64-unknown-linux-gnu-install_only.tar.gz'',
            platform = ''x86_64'', url = ''http://x/linux'', sha256 = None\<rparr>])]"
  by (simp add: sample_catalog_def)

lemma sample_tasks:
  "manifest_of ''Linux'' ''20240107'' = sample_manifest_task"
  "artifact_of ''Linux''
     \<lparr>filename = ''cpython-3.12.1-x86_64-unknown-linux-gnu-install_only.tar.gz'',
      platform = ''x86_64'', url = ''http://x/linux'', sha256 = None\<rparr> = sample_artifact_task"
  by (simp_all add: manifest_of_def artifact_of_def sample_manifest_task_def
      sample_artifact_task_def linux_folder sha_name_def path_join_def sep_def)

lemma sample_plan:
  assumes "\<not> obstructed w (folder_of ''Linux'')"
  shows "plan_systems sample_catalog [''Linux''] [] [] w
           = Inr (filter (pending (with_dirs ''Linux'' w)) [sample_manifest_task],
                  filter (pending (with_dirs ''Linux'' w)) [sample_artifact_task],
                  (with_dirs ''Linux'' w)
                    \<lparr>console := console w
                        @ map (\<lambda>t. Skipped (display_name t))
                            (filter (\<lambda>t. \<not> pending (with_dirs ''Linux'' w) t)
                               [sample_manifest_task, sample_artifact_task])\<rparr>)"
  using assms
  by (simp add: plan_systems_Cons sample_lookup sha_new_def dl_new_def notices_def
      version_candidates_def sample_tasks del: plan_systems.simps(2))

lemma sample_destinations:
  "destination sample_manifest_task = ''downloads/Linux/Python/SHA256SUMS-20240107.txt''"
  "destination sample_artifact_task
     = ''downloads/Linux/Python/cpython-3.12.1-x86_64-unknown-linux-gnu-install_only.tar.gz''"
  "display_name sample_manifest_task = ''SHA256SUMS-20240107.txt''"
  "display_name sample_artifact_task
     = ''cpython-3.12.1-x86_64-unknown-linux-gnu-install_only.tar.gz''"
  by (simp_all add: destination_def display_name_def sample_manifest_task_def
      sample_artifact_task_def)

lemma sample_parents:
  "parent_dir ''downloads/Linux/Python/SHA256SUMS-20240107.txt'' = ''downloads/Linux/Python''"
  "parent_dir ''downloads/Linux/Python/cpython-3.12.1-x86_64-unknown-linux-gnu-install_only.tar.gz''
     = ''downloads/Linux/Python''"
  by (simp_all add: parent_dir_def sep_def)

text \<open>\<^verbatim>\<open>main\<close> for Linux on the sample release: the catalog is fetched and printed, the
  files are downloaded, the statistics are printed.\<close>

lemma sample_main:
  assumes "api w = Parsed sample_release"
  shows "main linux_args w
           = (case download_files sample_catalog [''Linux''] 3
                     (w\<lparr>console := console w
                          @ [Fetching [''Linux''], Rule, Dump linux_listing, Rule, Blank]\<rparr>) of
                Inl e \<Rightarrow> Inl e
              | Inr w3 \<Rightarrow> Inr (0, w3\<lparr>console := console w3 @ [Stats_header, Stats ''Linux'' 1]\<rparr>))"
proof -
  obtain cat where fetch:
    "\<And>w'. api w' = Parsed sample_release \<Longrightarrow> fetch_python_versions w' = (Some cat, w')"
    using fetch_parsed_any [OF assms] by blast
  from fetch [of online_world] sample_fetch have cat: "cat = sample_catalog"
    by (simp add: online_world_def)
  let ?w0 = "thread_safe_print (Fetching [''Linux'']) w"
  have "fetch_python_versions ?w0 = (Some sample_catalog, ?w0)"
    using fetch [of ?w0] assms cat by simp
  moreover have "sample_catalog \<noteq> []"
    by (simp add: sample_catalog_def)
  moreover have "[''Linux''] = (if arg_system linux_args = ''all'' then SYSTEMS
                                 else [arg_system linux_args])"
    by (simp add: linux_args_def)
  ultimately have m: "main linux_args w
      = (case download_files sample_catalog [''Linux''] (arg_workers linux_args)
                (print_catalog sample_catalog [''Linux''] ?w0) of
           Inl e \<Rightarrow> Inl e
         | Inr w3 \<Rightarrow> Inr (0, print_stats sample_catalog [''Linux'']
                                (thread_safe_print Stats_header w3)))"
    by (rule main_parsed)
  have pc: "print_catalog sample_catalog [''Linux''] ?w0
      = w\<lparr>console := console w @ [Fetching [''Linux''], Rule, Dump linux_listing, Rule, Blank]\<rparr>"
    by (simp add: print_catalog_def sample_lookup linux_listing_def thread_safe_print_def)
  have ps: "print_stats sample_catalog [''Linux''] (thread_safe_print Stats_header w3)
      = w3\<lparr>console := console w3 @ [Stats_header, Stats ''Linux'' 1]\<rparr>" for w3
    by (simp add: sample_lookup thread_safe_print_def)
  have aw: "arg_workers linux_args = 3"
    by (simp add: linux_args_def)
  show ?thesis
    by (simp only: m pc ps aw)
qed

lemma sample_pending_with_dirs:
  "pending (with_dirs ''Linux'' w) sample_manifest_task = pending w sample_manifest_task"
  "pending (with_dirs ''Linux'' w) sample_artifact_task = pending w sample_artifact_task"
  by (simp_all add: pending_def path_exists_def sample_destinations linux_folder linux_ancestors
      linux_dirs_def)

lemma with_dirs_linux: "with_dirs ''Linux'' w = w\<lparr>fs_dirs := fs_dirs w \<union> linux_dirs\<rparr>"
  by (simp add: with_dirs_def linux_folder linux_ancestors)

lemma unobstructed_without_files:
  assumes "fs_files w = no_files"
  shows "\<not> obstructed w p"
  using assms by (simp add: obstructed_def no_files_def)

lemma run_tasks_one:
  assumes "download_single_file u1 p1 n1 w = (r1, w1)"
  shows "run_tasks [(u1, p1, n1)] w = ([r1], w1)"
  using assms by simp

lemma run_tasks_two:
  assumes "download_single_file u1 p1 n1 w = (r1, w1)"
    and "download_single_file u2 p2 n2 w1 = (r2, w2)"
  shows "run_tasks [(u1, p1, n1), (u2, p2, n2)] w = ([r1, r2], w2)"
  using assms by simp

lemma sample_plan_both:
  assumes "\<not> obstructed w (folder_of ''Linux'')"
    and "pending w sample_manifest_task" and "pending w sample_artifact_task"
  shows "plan_systems sample_catalog [''Linux''] [] [] w
           = Inr ([sample_manifest_task], [sample_artifact_task],
                  w\<lparr>fs_dirs := fs_dirs w \<union> linux_dirs\<rparr>)"
proof -
  have "pending (with_dirs ''Linux'' w) sample_manifest_task"
    "pending (with_dirs ''Linux'' w) sample_artifact_task"
    using assms(2,3) by (simp_all add: sample_pending_with_dirs)
  with sample_plan [OF assms(1)] show ?thesis
    by (simp add: with_dirs_linux)
qed

lemma sample_plan_artifact:
  assumes "\<not> obstructed w (folder_of ''Linux'')"
    and "\<not> pending w sample_manifest_task" and "pending w sample_artifact_task"
  shows "plan_systems sample_catalog [''Linux''] [] [] w
           = Inr ([], [sample_artifact_task],
                  w\<lparr>fs_dirs := fs_dirs w \<union> linux_dirs,
                    console := console w @ [Skipped ''SHA256SUMS-20240107.txt'']\<rparr>)"
proof -
  have "\<not> pending (with_dirs ''Linux'' w) sample_manifest_task"
    "pending (with_dirs ''Linux'' w) sample_artifact_task"
    using assms(2,3) by (simp_all add: sample_pending_with_dirs)
  with sample_plan [OF assms(1)] show ?thesis
    by (simp add: with_dirs_linux sample_destinations)
qed

lemma flaky_first_run: "main linux_args flaky_world = Inr (0, flaky_after_first)"
proof -
  let ?wc = "flaky_world\<lparr>console := console flaky_world
               @ [Fetching [''Linux''], Rule, Dump linux_listing, Rule, Blank]\<rparr>"
  let ?w1 = "?wc\<lparr>fs_dirs := fs_dirs ?wc \<union> linux_dirs\<rparr>"
  have free: "\<not> obstructed ?wc (folder_of ''Linux'')"
    by (rule unobstructed_without_files) (simp add: flaky_world_def)
  have pend: "pending ?wc sample_manifest_task" "pending ?wc sample_artifact_task"
    by (simp_all add: pending_def path_exists_def sample_destinations flaky_world_def no_files_def)
  have plan: "plan_systems sample_catalog [''Linux''] [] [] ?wc
                = Inr ([sample_manifest_task], [sample_artifact_task], ?w1)"
    using free pend by (rule sample_plan_both)
  let ?wq = "thread_safe_print (Preparing 2 3) ?w1"
  let ?m = "''downloads/Linux/Python/SHA256SUMS-20240107.txt''"
  let ?a = "''downloads/Linux/Python/cpython-3.12.1-x86_64-unknown-linux-gnu-install_only.tar.gz''"
  let ?w2 = "?wq\<lparr>retrieved := retrieved ?wq @ [sha_link ''20240107''],
                   fs_files := (fs_files ?wq)(?m \<mapsto> ''sums''),
                   console := console ?wq @ [Starting ''SHA256SUMS-20240107.txt'',
                                             Finished ''SHA256SUMS-20240107.txt'']\<rparr>"
  have first: "download_single_file (sha_link ''20240107'') ?m ''SHA256SUMS-20240107.txt'' ?wq
                 = ((True, ''SHA256SUMS-20240107.txt''), ?w2)"
    by (rule dsf_complete)
       (simp_all add: flaky_world_def sample_parents linux_dirs_def)
  let ?w3 = "?w2\<lparr>retrieved := retrieved ?w2 @ [''http://x/linux''],
                   console := console ?w2
                     @ [Starting ''cpython-3.12.1-x86_64-unknown-linux-gnu-install_only.tar.gz'',
                        Failed ''cpython-3.12.1-x86_64-unknown-linux-gnu-install_only.tar.gz''
                          URLError]\<rparr>"
  have second: "download_single_file ''http://x/linux'' ?a
                  ''cpython-3.12.1-x86_64-unknown-linux-gnu-install_only.tar.gz'' ?w2
                 = ((False, ''cpython-3.12.1-x86_64-unknown-linux-gnu-install_only.tar.gz''), ?w3)"
    by (rule dsf_unreachable)
       (simp_all add: flaky_world_def always_def sha_link_def path_exists_def no_files_def
          linux_dirs_def)
  have run: "run_tasks ([sample_manifest_task] @ [sample_artifact_task]) ?wq
               = ([(True, ''SHA256SUMS-20240107.txt''),
                   (False, ''cpython-3.12.1-x86_64-unknown-linux-gnu-install_only.tar.gz'')], ?w3)"
    unfolding sample_manifest_task_def sample_artifact_task_def append_Cons append_Nil
    using first second by (rule run_tasks_two)
  have two: "length [sample_manifest_task] + length [sample_artifact_task] = 2"
    by simp
  have "download_files sample_catalog [''Linux''] 3 ?wc
          = run_pool 3 [sample_manifest_task] [sample_artifact_task] ?wq"
    unfolding download_files_eq [OF plan] two by simp
  also have "\<dots> = Inr (thread_safe_print (Tally 1 1) ?w3)"
    unfolding run_pool_eq run by simp
  finally have dl: "download_files sample_catalog [''Linux''] 3 ?wc
                      = Inr (thread_safe_print (Tally 1 1) ?w3)" .
  have "api flaky_world = Parsed sample_release"
    by (simp add: flaky_world_def)
  from sample_main [OF this] show ?thesis
    unfolding dl
    by (simp add: flaky_after_first_def flaky_world_def thread_safe_print_def)
qed

lemma flaky_second_run: "main linux_args flaky_after_first = Inr (0, flaky_after_second)"
proof -
  let ?wc = "flaky_after_first\<lparr>console := console flaky_after_first
               @ [Fetching [''Linux''], Rule, Dump linux_listing, Rule, Blank]\<rparr>"
  let ?w1 = "?wc\<lparr>fs_dirs := fs_dirs ?wc \<union> linux_dirs,
                   console := console ?wc @ [Skipped ''SHA256SUMS-20240107.txt'']\<rparr>"
  have free: "\<not> obstructed ?wc (folder_of ''Linux'')"
    by (simp add: obstructed_def linux_folder linux_ancestors flaky_after_first_def)
  have pend: "\<not> pending ?wc sample_manifest_task" "pending ?wc sample_artifact_task"
    by (simp_all add: pending_def path_exists_def sample_destinations flaky_after_first_def
        no_files_def linux_dirs_def)
  have plan: "plan_systems sample_catalog [''Linux''] [] [] ?wc
                = Inr ([], [sample_artifact_task], ?w1)"
    using free pend by (rule sample_plan_artifact)
  let ?wq = "thread_safe_print (Preparing 1 3) ?w1"
  let ?a = "''downloads/Linux/Python/cpython-3.12.1-x86_64-unknown-linux-gnu-install_only.tar.gz''"
  let ?w3 = "?wq\<lparr>retrieved := retrieved ?wq @ [''http://x/linux''],
                   console := console ?wq
                     @ [Starting ''cpython-3.12.1-x86_64-unknown-linux-gnu-install_only.tar.gz'',
                        Failed ''cpython-3.12.1-x86_64-unknown-linux-gnu-install_only.tar.gz''
                          URLError]\<rparr>"
  have only: "download_single_file ''http://x/linux'' ?a
                  ''cpython-3.12.1-x86_64-unknown-linux-gnu-install_only.tar.gz'' ?wq
                 = ((False, ''cpython-3.12.1-x86_64-unknown-linux-gnu-install_only.tar.gz''), ?w3)"
    by (rule dsf_unreachable)
       (simp_all add: flaky_after_first_def flaky_world_def always_def sha_link_def
          path_exists_def no_files_def linux_dirs_def)
  have run: "run_tasks ([] @ [sample_artifact_task]) ?wq
               = ([(False, ''cpython-3.12.1-x86_64-unknown-linux-gnu-install_only.tar.gz'')], ?w3)"
    unfolding sample_artifact_task_def append_Nil
    using only by (rule run_tasks_one)
  have one: "length ([]::task list) + length [sample_artifact_task] = 1"
    by simp
  have "download_files sample_catalog [''Linux''] 3 ?wc
          = run_pool 3 [] [sample_artifact_task] ?wq"
    unfolding download_files_eq [OF plan] one by simp
  also have "\<dots> = Inr (thread_safe_print (Tally 0 1) ?w3)"
    unfolding run_pool_eq run by simp
  finally have dl: "download_files sample_catalog [''Linux''] 3 ?wc
                      = Inr (thread_safe_print (Tally 0 1) ?w3)" .
  have "api flaky_after_first = Parsed sample_release"
    by (simp add: flaky_after_first_def flaky_world_def)
  from sample_main [OF this] show ?thesis
    unfolding dl
    by (simp add: flaky_after_second_def flaky_after_first_def flaky_world_def
        thread_safe_print_def)
qed

lemma online_first_run: "main linux_args online_world = Inr (0, online_after_first)"
proof -
  let ?wc = "online_world\<lparr>console := console online_world
               @ [Fetching [''Linux''], Rule, Dump linux_listing, Rule, Blank]\<rparr>"
  let ?w1 = "?wc\<lparr>fs_dirs := fs_dirs ?wc \<union> linux_dirs\<rparr>"
  have free: "\<not> obstructed ?wc (folder_of ''Linux'')"
    by (rule unobstructed_without_files) (simp add: online_world_def)
  have pend: "pending ?wc sample_manifest_task" "pending ?wc sample_artifact_task"
    by (simp_all add: pending_def path_exists_def sample_destinations online_world_def no_files_def)
  have plan: "plan_systems sample_catalog [''Linux''] [] [] ?wc
                = Inr ([sample_manifest_task], [sample_artifact_task], ?w1)"
    using free pend by (rule sample_plan_both)
  let ?wq = "thread_safe_print (Preparing 2 3) ?w1"
  let ?m = "''downloads/Linux/Python/SHA256SUMS-20240107.txt''"
  let ?a = "''downloads/Linux/Python/cpython-3.12.1-x86_64-unknown-linux-gnu-install_only.tar.gz''"
  let ?w2 = "?wq\<lparr>retrieved := retrieved ?wq @ [sha_link ''20240107''],
                   fs_files := (fs_files ?wq)(?m \<mapsto> ''abc''),
                   console := console ?wq @ [Starting ''SHA256SUMS-20240107.txt'',
                                             Finished ''SHA256SUMS-20240107.txt'']\<rparr>"
  have first: "download_single_file (sha_link ''20240107'') ?m ''SHA256SUMS-20240107.txt'' ?wq
                 = ((True, ''SHA256SUMS-20240107.txt''), ?w2)"
    by (rule dsf_complete)
       (simp_all add: online_world_def always_def sample_parents linux_dirs_def)
  let ?w3 = "?w2\<lparr>retrieved := retrieved ?w2 @ [''http://x/linux''],
                   fs_files := (fs_files ?w2)(?a \<mapsto> ''abc''),
                   console := console ?w2
                     @ [Starting ''cpython-3.12.1-x86_64-unknown-linux-gnu-install_only.tar.gz'',
                        Finished ''cpython-3.12.1-x86_64-unknown-linux-gnu-install_only.tar.gz'']\<rparr>"
  have second: "download_single_file ''http://x/linux'' ?a
                  ''cpython-3.12.1-x86_64-unknown-linux-gnu-install_only.tar.gz'' ?w2
                 = ((True, ''cpython-3.12.1-x86_64-unknown-linux-gnu-install_only.tar.gz''), ?w3)"
    by (rule dsf_complete)
       (simp_all add: online_world_def always_def sample_parents linux_dirs_def)
  have run: "run_tasks ([sample_manifest_task] @ [sample_artifact_task]) ?wq
               = ([(True, ''SHA256SUMS-20240107.txt''),
                   (True, ''cpython-3.12.1-x86_64-unknown-linux-gnu-install_only.tar.gz'')], ?w3)"
    unfolding sample_manifest_task_def sample_artifact_task_def append_Cons append_Nil
    using first second by (rule run_tasks_two)
  have two: "length [sample_manifest_task] + length [sample_artifact_task] = 2"
    by simp
  have "download_files sample_catalog [''Linux''] 3 ?wc
          = run_pool 3 [sample_manifest_task] [sample_artifact_task] ?wq"
    unfolding download_files_eq [OF plan] two by simp
  also have "\<dots> = Inr (thread_safe_print (Tally 2 0) ?w3)"
    unfolding run_pool_eq run by simp
  finally have dl: "download_files sample_catalog [''Linux''] 3 ?wc
                      = Inr (thread_safe_print (Tally 2 0) ?w3)" .
  have "api online_world = Parsed sample_release"
    by (simp add: online_world_def)
  from sample_main [OF this] show ?thesis
    unfolding dl
    by (simp add: online_after_first_def online_world_def thread_safe_print_def)
qed

text \<open>
  C4, as stated: the second run against an unchanged catalog and a destination directory
  that is not empty makes no transfer. This fails in the environment below, whose server
  delivers the manifest and nothing else: the first run leaves the manifest on the disk
  and no file for the artifact, whose transfer failed, and the second run skips the
  manifest and asks for the artifact once more.
\<close>

theorem failed_transfer_is_retried:
  "main linux_args flaky_world = Inr (0, flaky_after_first)
   \<and> api flaky_after_first = api flaky_world
   \<and> fs_files flaky_after_first ''downloads/Linux/Python/SHA256SUMS-20240107.txt'' = Some ''sums''
   \<and> main linux_args flaky_after_first = Inr (0, flaky_after_second)
   \<and> retrieved flaky_after_second = retrieved flaky_after_first @ [''http://x/linux'']"
  using flaky_first_run flaky_second_run
  by (simp add: flaky_after_second_def flaky_after_first_def flaky_world_def)

theorem quiet_first_run_makes_second_run_idle_witness:
  "main linux_args online_world = Inr (0, online_after_first)
   \<and> (\<forall>n e. Failed n e \<notin> set (drop (length (console online_world)) (console online_after_first)))
   \<and> (\<exists>w2. main linux_args online_after_first = Inr (0, w2)
         \<and> retrieved w2 = [sha_link ''20240107'', ''http://x/linux'']
         \<and> fs_files w2 = fs_files online_after_first)
   \<and> (\<exists>wp. plan_systems demo_catalog [''Linux''] [] [] artifact_present_world
               = Inr ([manifest_task], [], wp))
   \<and> \<not> path_exists artifact_present_world (destination manifest_task)"
proof -
  have quiet: "\<forall>n e. Failed n e \<notin> set (drop (length (console online_world))
                                            (console online_after_first))"
    by (simp add: online_after_first_def online_world_def)
  have got: "retrieved online_after_first = [sha_link ''20240107'', ''http://x/linux'']"
    by (simp add: online_after_first_def)
  note inst = quiet_first_run_makes_second_run_idle
    [of linux_args online_world demo_catalog "[''Linux'']"]
  from inst online_first_run quiet
  have "\<exists>w2. main linux_args online_after_first = Inr (0, w2)
           \<and> retrieved w2 = retrieved online_after_first
           \<and> fs_files w2 = fs_files online_after_first \<and> fs_dirs w2 = fs_dirs online_after_first"
    by blast
  then have second: "\<exists>w2. main linux_args online_after_first = Inr (0, w2)
         \<and> retrieved w2 = [sha_link ''20240107'', ''http://x/linux'']
         \<and> fs_files w2 = fs_files online_after_first"
    unfolding got by blast
  have free: "\<not> obstructed artifact_present_world (folder_of ''Linux'')"
    by (simp add: obstructed_def linux_folder linux_ancestors artifact_present_world_def)
  have pend: "pending artifact_present_world manifest_task"
    "\<not> pending artifact_present_world artifact_task"
    by (simp_all add: pending_def path_exists_def demo_destinations artifact_present_world_def
        no_files_def linux_dirs_def)
  from demo_plan [OF free] pend
  have plan: "\<exists>wp. plan_systems demo_catalog [''Linux''] [] [] artifact_present_world
               = Inr ([manifest_task], [], wp)"
    by (simp add: demo_pending_with_dirs)
  then obtain wp where
    "plan_systems demo_catalog [''Linux''] [] [] artifact_present_world = Inr ([manifest_task], [], wp)"
    by blast
  with quiet_first_run_makes_second_run_idle
    [of linux_args artifact_present_world demo_catalog "[''Linux'']"]
  have "\<not> path_exists artifact_present_world (destination manifest_task)"
    by fastforce
  with online_first_run quiet second plan show ?thesis
    by blast
qed

end
